theory Spec2Isabelle
  imports Complex_Main "HOL-Library.AList"
begin

section \<open>Python values and the downloads table\<close>

text \<open>
  The source is \<^verbatim>\<open>src/main.py\<close>. Python is dynamically typed and SQLite stores what it is
  given, so a cell of the \<^verbatim>\<open>downloads\<close> table holds \<^verbatim>\<open>None\<close> (SQL NULL), an int, a float or a
  str. A float is modelled by the exact decimal value it was read from: \<^verbatim>\<open>float()\<close> rounds
  that value to the nearest binary64, a monotone map that fixes 0, 100 and the other
  small integers, which is all the comparisons below rely on.
  Conversions between ints and floats are likewise exact in the model.
  Strings are ASCII texts (one \<open>char\<close> per character).
\<close>

datatype pyval = PyNone | PyInt int | PyFloat rat | PyStr string

text \<open>
  The columns of \<^verbatim>\<open>CREATE TABLE downloads\<close> other than the primary key \<^verbatim>\<open>id\<close>, which keys
  the table below.
\<close>

datatype column =
    Url | Title | Platform | Format_id | Quality | File_type | File_path | File_size
  | Progress | Status | Created_at | Completed_at | Speed | Eta | Error_message
  | Thumbnail_url | Duration

type_synonym row = "column \<Rightarrow> pyval"

text \<open>The table: its rows in storage order, each with its \<^verbatim>\<open>id\<close>.\<close>

type_synonym table = "(int \<times> row) list"

text \<open>
  What \<^verbatim>\<open>sqlite3\<close> can raise from \<^verbatim>\<open>cursor.execute\<close> of the \<^verbatim>\<open>UPDATE\<close> statement: the
  statement is malformed, a Python int does not fit SQLite's 64-bit INTEGER, or a
  constraint of the table fails.
\<close>

datatype db_error = OperationalError | OverflowError | IntegrityError

text \<open>
  The declared type of a column gives its affinity: \<^verbatim>\<open>file_size INTEGER\<close>, \<^verbatim>\<open>progress REAL\<close>,
  every other column \<^verbatim>\<open>TEXT\<close>. Only \<^verbatim>\<open>url\<close> is declared \<^verbatim>\<open>NOT NULL\<close>.
\<close>

datatype affinity = TEXT | INTEGER | REAL

fun column_affinity :: "column \<Rightarrow> affinity" where
  "column_affinity File_size = INTEGER"
| "column_affinity Progress = REAL"
| "column_affinity c = TEXT"

definition not_null :: "column \<Rightarrow> bool" where
  "not_null c = (c = Url)"

definition int64 :: "int \<Rightarrow> bool" where
  "int64 n = (- (2 ^ 63) \<le> n \<and> n < 2 ^ 63)"

text \<open>
  Two routines of the SQLite library, which is no part of this repository, are taken as
  parameters: how it prints a float as text, and which texts it reads as a number (an
  INTEGER, \<open>Inl\<close>, or a REAL, \<open>Inr\<close>). Everything proved below holds for every choice of them.
\<close>

record sqlite =
  real_to_text :: "rat \<Rightarrow> string"
  text_to_number :: "string \<Rightarrow> (int + rat) option"

text \<open>An integer as text: its decimal digits, after a minus sign if it is negative.\<close>

function digits_of :: "nat \<Rightarrow> string" where
  "digits_of n =
     (if n < 10 then [char_of (48 + n)]
      else digits_of (n div 10) @ [char_of (48 + n mod 10)])"
  by pat_completeness auto
termination
  by (relation "measure id") auto

definition int_to_text :: "int \<Rightarrow> string" where
  "int_to_text n = (if n < 0 then CHR ''-'' # digits_of (nat (- n)) else digits_of (nat n))"

text \<open>
  A REAL that goes into a column of INTEGER affinity becomes an INTEGER when it is a
  whole number strictly between the least and the greatest 64-bit integer.
\<close>

definition real_to_integer :: "rat \<Rightarrow> pyval" where
  "real_to_integer q =
     (if of_int \<lfloor>q\<rfloor> = q \<and> - (2 ^ 63) < \<lfloor>q\<rfloor> \<and> \<lfloor>q\<rfloor> < 2 ^ 63 - 1
      then PyInt \<lfloor>q\<rfloor> else PyFloat q)"

text \<open>
  The value SQLite stores, and Python reads back, when \<open>v\<close> is assigned to column \<open>c\<close>:
  a TEXT column turns numbers into text, the INTEGER and REAL columns turn a text that
  reads as a number into that number, the REAL column turns integers into floats, and
  NULL and every other text stay as they are.
\<close>

definition stored :: "sqlite \<Rightarrow> column \<Rightarrow> pyval \<Rightarrow> pyval" where
  "stored sq c v =
     (case column_affinity c of
        TEXT \<Rightarrow>
          (case v of
             PyInt n \<Rightarrow> PyStr (int_to_text n)
           | PyFloat q \<Rightarrow> PyStr (real_to_text sq q)
           | _ \<Rightarrow> v)
      | INTEGER \<Rightarrow>
          (case v of
             PyFloat q \<Rightarrow> real_to_integer q
           | PyStr s \<Rightarrow>
               (case text_to_number sq s of
                  None \<Rightarrow> v
                | Some (Inl n) \<Rightarrow> PyInt n
                | Some (Inr q) \<Rightarrow> real_to_integer q)
           | _ \<Rightarrow> v)
      | REAL \<Rightarrow>
          (case v of
             PyInt n \<Rightarrow> PyFloat (of_int n)
           | PyStr s \<Rightarrow>
               (case text_to_number sq s of
                  None \<Rightarrow> v
                | Some (Inl n) \<Rightarrow> PyFloat (of_int n)
                | Some (Inr q) \<Rightarrow> PyFloat q)
           | _ \<Rightarrow> v))"

text \<open>
  \<^verbatim>\<open>UPDATE downloads SET k1 = ?, k2 = ?, ... WHERE id = ?\<close>: a list of assignments applied
  to one row; of two assignments to one column the right one counts.
\<close>

definition set_clause :: "(column \<times> pyval) list \<Rightarrow> row \<Rightarrow> row" where
  "set_clause kwargs r = foldl (\<lambda>r' (c, v). r'(c := v)) r kwargs"

text \<open>
  A Python int that SQLite cannot take, and a list of assignments that would leave NULL
  in a \<^verbatim>\<open>NOT NULL\<close> column (SQLite checks the columns the statement assigns).
\<close>

definition too_large :: "pyval \<Rightarrow> bool" where
  "too_large v = (case v of PyInt n \<Rightarrow> \<not> int64 n | _ \<Rightarrow> False)"

definition violates_not_null :: "(column \<times> pyval) list \<Rightarrow> bool" where
  "violates_not_null assignments =
     (\<exists>c \<in> fst ` set assignments. not_null c \<and> map_of (rev assignments) c = Some PyNone)"

text \<open>
  \<^verbatim>\<open>DatabaseManager.update_download(download_id, **kwargs)\<close>, in the order in which
  \<^verbatim>\<open>cursor.execute\<close> works. With no keyword argument the statement is
  \<^verbatim>\<open>UPDATE downloads SET  WHERE id = ?\<close>, refused when it is compiled
  (\<^verbatim>\<open>sqlite3.OperationalError\<close>). Then the values and the id are bound, and an int outside
  64 bits raises \<^verbatim>\<open>OverflowError\<close>. Then the statement runs: if a row has the id and
  \<^verbatim>\<open>url\<close> would become NULL it fails with \<^verbatim>\<open>sqlite3.IntegrityError\<close> and writes nothing;
  otherwise every row with the id gets the assignments, each value as its column
  stores it, and no row is added when none matches. The keywords are names of the
  seventeen data columns: a keyword that names no column is refused like a malformed
  statement, and an assignment to the key \<^verbatim>\<open>id\<close> itself is not modelled. The values are
  None, ints, finite floats and strs; bytes, the floats \<^verbatim>\<open>nan\<close> and \<^verbatim>\<open>inf\<close> and objects that
  \<^verbatim>\<open>sqlite3\<close> cannot bind are not modelled either.
\<close>

definition update_download ::
    "sqlite \<Rightarrow> table \<Rightarrow> int \<Rightarrow> (column \<times> pyval) list \<Rightarrow> db_error + table" where
  "update_download sq tbl download_id kwargs =
     (if kwargs = [] then Inl OperationalError
      else if (\<exists>v \<in> snd ` set kwargs. too_large v) \<or> \<not> int64 download_id then Inl OverflowError
      else
        (let assignments = map (\<lambda>(c, v). (c, stored sq c v)) kwargs in
         if download_id \<in> fst ` set tbl \<and> violates_not_null assignments then Inl IntegrityError
         else Inr (map (\<lambda>(i, r). if i = download_id then (i, set_clause assignments r) else (i, r))
                     tbl)))"

text \<open>The table after the call, whether it returned or raised.\<close>

definition after_update :: "sqlite \<Rightarrow> table \<Rightarrow> int \<Rightarrow> (column \<times> pyval) list \<Rightarrow> table" where
  "after_update sq tbl download_id kwargs =
     (case update_download sq tbl download_id kwargs of Inr tbl' \<Rightarrow> tbl' | Inl e \<Rightarrow> tbl)"

text \<open>
  \<^verbatim>\<open>DatabaseManager.get_download_by_id\<close>: \<^verbatim>\<open>fetchone()\<close> of the rows with that id; the
  \<^verbatim>\<open>DownloadItem\<close> it builds has the row's cells as its attributes.
\<close>

definition get_download_by_id :: "table \<Rightarrow> int \<Rightarrow> row option" where
  "get_download_by_id tbl download_id = map_of tbl download_id"

text \<open>
  An update made by the manager. Each of its calls passes one to three keywords, a str
  for a TEXT column and a float for \<^verbatim>\<open>progress\<close>; such values are \<open>plain\<close>: SQLite stores them
  as they are and no constraint can fail. So the call writes the given values into the
  rows with the id, which is what \<open>db_update\<close> does, and for an id of 64 bits it is what
  \<open>update_download\<close> returns (\<open>db_update_is_update_download\<close> below). For any other id
  the call raises and writes nothing; no row has such an id, and \<open>db_update\<close> changes
  nothing either (\<open>db_update_no_row\<close>), but how the worker goes on after that exception
  is outside the model. So are failures of the database file itself (locked, disk full).
\<close>

definition db_update :: "table \<Rightarrow> int \<Rightarrow> (column \<times> pyval) list \<Rightarrow> table" where
  "db_update tbl download_id kwargs =
     map (\<lambda>(i, r). if i = download_id then (i, set_clause kwargs r) else (i, r)) tbl"

definition plain :: "column \<times> pyval \<Rightarrow> bool" where
  "plain cv =
     (case cv of
        (c, PyStr s) \<Rightarrow> column_affinity c = TEXT
      | (c, PyFloat q) \<Rightarrow> column_affinity c = REAL
      | _ \<Rightarrow> False)"

section \<open>Reading a line of yt-dlp output\<close>

text \<open>\<^verbatim>\<open>\d\<close> and \<^verbatim>\<open>\s\<close> on ASCII text.\<close>

definition is_digit :: "char \<Rightarrow> bool" where
  "is_digit c = (c \<in> set ''0123456789'')"

definition is_space :: "char \<Rightarrow> bool" where
  "is_space c = (c \<in> set [CHR 0x09, CHR 0x0A, CHR 0x0B, CHR 0x0C, CHR 0x0D,
                           CHR 0x1C, CHR 0x1D, CHR 0x1E, CHR 0x1F, CHR '' ''])"

text \<open>\<^verbatim>\<open>str.strip()\<close>.\<close>

definition strip :: "string \<Rightarrow> string" where
  "strip s = rev (dropWhile is_space (rev (dropWhile is_space s)))"

text \<open>A literal at the start of a string, and \<^verbatim>\<open>sub in s\<close>.\<close>

fun starts_with :: "string \<Rightarrow> string \<Rightarrow> bool" where
  "starts_with [] s = True"
| "starts_with (p # ps) [] = False"
| "starts_with (p # ps) (c # cs) = (p = c \<and> starts_with ps cs)"

fun contains :: "string \<Rightarrow> string \<Rightarrow> bool" where
  "contains sub [] = (sub = [])"
| "contains sub (c # cs) = (starts_with sub (c # cs) \<or> contains sub cs)"

text \<open>
  \<^verbatim>\<open>re.search(pattern, s)\<close>: the match at the leftmost position where the pattern matches;
  \<open>m\<close> matches the pattern at the start of a string and returns group 1.
\<close>

fun re_search :: "(string \<Rightarrow> 'a option) \<Rightarrow> string \<Rightarrow> 'a option" where
  "re_search m [] = m []"
| "re_search m (c # cs) = (case m (c # cs) of Some g \<Rightarrow> Some g | None \<Rightarrow> re_search m cs)"

text \<open>
  \<^verbatim>\<open>(\d+\.?\d*)%\<close> at the start of \<open>s\<close>. The digits, the dot and the percent sign are
  disjoint character classes, so the greedy match is the only one and backtracking
  finds nothing else: the longest run of digits, a dot if one follows, the longest run
  of digits again, then the percent sign.
\<close>

definition match_percent :: "string \<Rightarrow> string option" where
  "match_percent s =
     (let d1 = takeWhile is_digit s; r1 = dropWhile is_digit s in
      if d1 = [] then None
      else (case r1 of
              [] \<Rightarrow> None
            | c # r2 \<Rightarrow>
                if c = CHR ''%'' then Some d1
                else if c = CHR ''.'' then
                  (let d2 = takeWhile is_digit r2; r3 = dropWhile is_digit r2 in
                   if r3 \<noteq> [] \<and> hd r3 = CHR ''%'' then Some (d1 @ ''.'' @ d2) else None)
                else None))"

text \<open>\<^verbatim>\<open>at\s+([0-9.]+[KMG]?iB/s)\<close> at the start of \<open>s\<close>; again the greedy match is the only one.\<close>

definition is_num_char :: "char \<Rightarrow> bool" where
  "is_num_char c = (c \<in> set ''0123456789.'')"

definition match_speed :: "string \<Rightarrow> string option" where
  "match_speed s =
     (if starts_with ''at'' s then
        (let r0 = drop 2 s;
             ws = takeWhile is_space r0; r1 = dropWhile is_space r0;
             num = takeWhile is_num_char r1; r2 = dropWhile is_num_char r1;
             unit = (if r2 \<noteq> [] \<and> hd r2 \<in> set ''KMG'' then [hd r2] else []);
             r3 = drop (length unit) r2
         in if ws \<noteq> [] \<and> num \<noteq> [] \<and> starts_with ''iB/s'' r3
            then Some (num @ unit @ ''iB/s'') else None)
      else None)"

text \<open>\<^verbatim>\<open>ETA\s+([0-9:]+)\<close> at the start of \<open>s\<close>.\<close>

definition is_eta_char :: "char \<Rightarrow> bool" where
  "is_eta_char c = (c \<in> set ''0123456789:'')"

definition match_eta :: "string \<Rightarrow> string option" where
  "match_eta s =
     (if starts_with ''ETA'' s then
        (let r0 = drop 3 s;
             ws = takeWhile is_space r0; r1 = dropWhile is_space r0;
             tok = takeWhile is_eta_char r1
         in if ws \<noteq> [] \<and> tok \<noteq> [] then Some tok else None)
      else None)"

text \<open>
  \<^verbatim>\<open>float(percent_match.group(1))\<close>: the value of digits, an optional dot and digits.
\<close>

definition digits_to_nat :: "string \<Rightarrow> nat" where
  "digits_to_nat ds = foldl (\<lambda>n c. 10 * n + (of_char c - 48)) 0 ds"

definition py_float :: "string \<Rightarrow> rat" where
  "py_float g =
     (let ip = takeWhile is_digit g; fp = drop (length ip + 1) g
      in of_nat (digits_to_nat ip) + of_nat (digits_to_nat fp) / 10 ^ length fp)"

text \<open>
  The three values \<^verbatim>\<open>parse_progress\<close> extracts from a line (progress, speed, eta), or
  \<open>None\<close> when it extracts nothing: the line must contain \<^verbatim>\<open>[download]\<close> and a percentage.
\<close>

definition progress_event :: "string \<Rightarrow> (rat \<times> string \<times> string) option" where
  "progress_event output =
     (if contains ''[download]'' output then
        (case re_search match_percent output of
           None \<Rightarrow> None
         | Some g \<Rightarrow>
             Some (py_float g,
                   (case re_search match_speed output of Some sp \<Rightarrow> sp | None \<Rightarrow> ''''),
                   (case re_search match_eta output of Some e \<Rightarrow> e | None \<Rightarrow> '''')))
      else None)"

text \<open>
  What the three patterns match, said without the matching procedure.
  A numeric token is what \<^verbatim>\<open>\d+\.?\d*\<close> matches; \<open>percent_at line i tok\<close>: at position \<open>i\<close> of
  the line stands the numeric token \<open>tok\<close>, and right after it a percent sign.
\<close>

definition numeric_token :: "string \<Rightarrow> bool" where
  "numeric_token tok =
     (\<exists>d1 d2. d1 \<noteq> [] \<and> list_all is_digit d1 \<and> list_all is_digit d2 \<and>
        (tok = d1 \<or> tok = d1 @ ''.'' @ d2))"

definition percent_at :: "string \<Rightarrow> nat \<Rightarrow> string \<Rightarrow> bool" where
  "percent_at line i tok =
     (i \<le> length line \<and> numeric_token tok \<and> (\<exists>rest. drop i line = tok @ CHR ''%'' # rest))"

text \<open>
  \<open>speed_at line i tok\<close>: at position \<open>i\<close> stands \<^verbatim>\<open>at\<close>, white space and the speed \<open>tok\<close>;
  \<open>eta_at line i tok\<close>: at position \<open>i\<close> stands \<^verbatim>\<open>ETA\<close>, white space and the longest run
  \<open>tok\<close> of digits and colons.
\<close>

definition speed_at :: "string \<Rightarrow> nat \<Rightarrow> string \<Rightarrow> bool" where
  "speed_at line i tok =
     (i \<le> length line \<and>
      (\<exists>ws num unit rest.
         drop i line = ''at'' @ ws @ tok @ rest \<and> tok = num @ unit @ ''iB/s'' \<and>
         ws \<noteq> [] \<and> list_all is_space ws \<and> num \<noteq> [] \<and> list_all is_num_char num \<and>
         unit \<in> {[], ''K'', ''M'', ''G''}))"

definition eta_at :: "string \<Rightarrow> nat \<Rightarrow> string \<Rightarrow> bool" where
  "eta_at line i tok =
     (i \<le> length line \<and>
      (\<exists>ws rest.
         drop i line = ''ETA'' @ ws @ tok @ rest \<and>
         ws \<noteq> [] \<and> list_all is_space ws \<and> tok \<noteq> [] \<and> list_all is_eta_char tok \<and>
         (rest = [] \<or> \<not> is_eta_char (hd rest))))"

section \<open>The manager and its worker threads\<close>

text \<open>A \<^verbatim>\<open>subprocess.Popen\<close> handle: the process id and the command it was started with.\<close>

datatype popen = Popen (pid: nat) (args: "pyval list")

text \<open>
  Where a \<^verbatim>\<open>download_worker\<close> thread stands: started and not yet run; after the first
  update (line 266); in the read loop with its process; after the last update of the
  \<^verbatim>\<open>try\<close> or \<^verbatim>\<open>except\<close> block and before \<^verbatim>\<open>finally\<close>; returned.
\<close>

datatype phase = Created | Marked | Reading popen | Finishing | Exited

text \<open>A worker thread: the arguments of the \<^verbatim>\<open>start_download\<close> call it closes over, and its phase.\<close>

record worker =
  download_id :: int
  url :: pyval
  format_id :: pyval
  output_path :: pyval
  phase :: phase

text \<open>
  \<^verbatim>\<open>YTDLPManager\<close> with the table of its \<^verbatim>\<open>db_manager\<close> and the threads it has started
  (a thread is named by its position in \<open>threads\<close>). The two dicts keep insertion order.
\<close>

record manager =
  db_manager :: table
  active_downloads :: "(int \<times> popen) list"
  download_threads :: "(int \<times> nat) list"
  max_concurrent :: int
  max_speed :: string
  threads :: "worker list"

definition set_db :: "table \<Rightarrow> manager \<Rightarrow> manager" where
  "set_db tbl m = m\<lparr>db_manager := tbl\<rparr>"

definition set_phase :: "nat \<Rightarrow> phase \<Rightarrow> manager \<Rightarrow> manager" where
  "set_phase t ph m = m\<lparr>threads := (threads m)[t := (threads m ! t)\<lparr>phase := ph\<rparr>]\<rparr>"

text \<open>
  \<^verbatim>\<open>start_download\<close>: the admission test on the size of \<^verbatim>\<open>active_downloads\<close>, then the
  thread is created, stored in \<^verbatim>\<open>download_threads\<close> and started. The progress callback
  belongs to the user interface and is left out.
\<close>

definition start_download :: "int \<Rightarrow> pyval \<Rightarrow> pyval \<Rightarrow> pyval \<Rightarrow> manager \<Rightarrow> bool \<times> manager" where
  "start_download did u f p m =
     (if int (length (active_downloads m)) \<ge> max_concurrent m then (False, m)
      else (True,
            m\<lparr>download_threads := AList.update did (length (threads m)) (download_threads m),
              threads := threads m @ [\<lparr>download_id = did, url = u, format_id = f,
                                       output_path = p, phase = Created\<rparr>]\<rparr>))"

text \<open>\<^verbatim>\<open>parse_progress\<close>: a line with a percentage updates progress, speed and eta.\<close>

definition parse_progress :: "int \<Rightarrow> string \<Rightarrow> manager \<Rightarrow> manager" where
  "parse_progress did output m =
     (case progress_event output of
        None \<Rightarrow> m
      | Some (p, sp, e) \<Rightarrow>
          set_db (db_update (db_manager m) did
                    [(Progress, PyFloat p), (Speed, PyStr sp), (Eta, PyStr e)]) m)"

text \<open>The command line the worker builds.\<close>

definition build_cmd :: "string \<Rightarrow> pyval \<Rightarrow> pyval \<Rightarrow> pyval \<Rightarrow> pyval list" where
  "build_cmd speed f p u =
     [PyStr ''yt-dlp'', PyStr ''-f'', f, PyStr ''-o'', p, PyStr ''--newline'', PyStr ''--no-playlist'']
     @ (if speed \<noteq> ''0'' then [PyStr ''--limit-rate'', PyStr (speed @ ''K'')] else [])
     @ [u]"

text \<open>
  The worker, cut into stretches that each make one write to the table or to
  \<^verbatim>\<open>active_downloads\<close> (the \<^verbatim>\<open>finally\<close> block also clears \<^verbatim>\<open>download_threads\<close>), so that the
  stretches of several threads, taken in any order, give every order of writes the
  threads can produce. Each function takes the thread and does nothing unless the
  thread is in the phase the stretch starts from.
  \<^item> \<open>worker_mark\<close>: line 266, the status becomes \<^verbatim>\<open>downloading\<close>.
  \<^item> \<open>worker_spawn\<close>: lines 268 to 293. \<^verbatim>\<open>Popen\<close> either raises (\<open>Inl\<close> of \<^verbatim>\<open>str(e)\<close>), and
    the \<^verbatim>\<open>except\<close> block records the failure, or returns a process (\<open>Inr\<close> of its pid),
    which is stored in \<^verbatim>\<open>active_downloads\<close>.
  \<^item> \<open>worker_line\<close>: one turn of the loop in which \<^verbatim>\<open>readline()\<close> returned \<open>output\<close> and
    the loop goes on; an empty \<open>output\<close> (the process still runs) does nothing.
  \<^item> \<open>worker_read_error\<close>: \<^verbatim>\<open>readline()\<close> raises; the \<^verbatim>\<open>except\<close> block records the failure.
  \<^item> \<open>worker_eof\<close>: \<^verbatim>\<open>readline()\<close> returned \<^verbatim>\<open>''\<close> and \<^verbatim>\<open>poll()\<close> the return code \<open>rc\<close>; the
    final status is written, \<open>now\<close> being \<^verbatim>\<open>datetime.now().isoformat()\<close>.
  \<^item> \<open>worker_finally\<close>: the \<^verbatim>\<open>finally\<close> block.
\<close>

definition worker_mark :: "nat \<Rightarrow> manager \<Rightarrow> manager" where
  "worker_mark t m =
     (if t < length (threads m) \<and> phase (threads m ! t) = Created then
        set_phase t Marked
          (set_db (db_update (db_manager m) (download_id (threads m ! t))
                     [(Status, PyStr ''downloading'')]) m)
      else m)"

definition worker_spawn :: "nat \<Rightarrow> string + nat \<Rightarrow> manager \<Rightarrow> manager" where
  "worker_spawn t res m =
     (if t < length (threads m) \<and> phase (threads m ! t) = Marked then
        (let w = threads m ! t in
         case res of
           Inl msg \<Rightarrow>
             set_phase t Finishing
               (set_db (db_update (db_manager m) (download_id w)
                          [(Status, PyStr ''failed''), (Error_message, PyStr msg)]) m)
         | Inr n \<Rightarrow>
             (let process = Popen n (build_cmd (max_speed m) (format_id w) (output_path w) (url w)) in
              set_phase t (Reading process)
                (m\<lparr>active_downloads := AList.update (download_id w) process (active_downloads m)\<rparr>)))
      else m)"

definition worker_line :: "nat \<Rightarrow> string \<Rightarrow> manager \<Rightarrow> manager" where
  "worker_line t output m =
     (if t < length (threads m) then
        (case phase (threads m ! t) of
           Reading process \<Rightarrow>
             if output \<noteq> [] then parse_progress (download_id (threads m ! t)) (strip output) m
             else m
         | _ \<Rightarrow> m)
      else m)"

definition worker_read_error :: "nat \<Rightarrow> string \<Rightarrow> manager \<Rightarrow> manager" where
  "worker_read_error t msg m =
     (if t < length (threads m) then
        (case phase (threads m ! t) of
           Reading process \<Rightarrow>
             set_phase t Finishing
               (set_db (db_update (db_manager m) (download_id (threads m ! t))
                          [(Status, PyStr ''failed''), (Error_message, PyStr msg)]) m)
         | _ \<Rightarrow> m)
      else m)"

definition worker_eof :: "nat \<Rightarrow> int \<Rightarrow> string \<Rightarrow> manager \<Rightarrow> manager" where
  "worker_eof t rc now m =
     (if t < length (threads m) then
        (case phase (threads m ! t) of
           Reading process \<Rightarrow>
             set_phase t Finishing
               (set_db (db_update (db_manager m) (download_id (threads m ! t))
                          (if rc = 0
                           then [(Status, PyStr ''completed''), (Progress, PyFloat 100),
                                 (Completed_at, PyStr now)]
                           else [(Status, PyStr ''failed''),
                                 (Error_message, PyStr ''Download failed'')])) m)
         | _ \<Rightarrow> m)
      else m)"

definition worker_finally :: "nat \<Rightarrow> manager \<Rightarrow> manager" where
  "worker_finally t m =
     (if t < length (threads m) \<and> phase (threads m ! t) = Finishing then
        (let did = download_id (threads m ! t) in
         set_phase t Exited
           (m\<lparr>active_downloads := AList.delete did (active_downloads m),
              download_threads := AList.delete did (download_threads m)\<rparr>))
      else m)"

text \<open>
  \<^verbatim>\<open>pause_download\<close>, \<^verbatim>\<open>resume_download\<close>, \<^verbatim>\<open>cancel_download\<close>. \<open>delivered\<close> says that the
  signal call returned; when it raises, \<^verbatim>\<open>except: pass\<close> skips the update.
\<close>

definition signal_download :: "string \<Rightarrow> int \<Rightarrow> bool \<Rightarrow> manager \<Rightarrow> manager" where
  "signal_download new_status did delivered m =
     (if did \<in> fst ` set (active_downloads m) then
        (if delivered
         then set_db (db_update (db_manager m) did [(Status, PyStr new_status)]) m
         else m)
      else m)"

definition pause_download :: "int \<Rightarrow> bool \<Rightarrow> manager \<Rightarrow> manager" where
  "pause_download = signal_download ''paused''"

definition resume_download :: "int \<Rightarrow> bool \<Rightarrow> manager \<Rightarrow> manager" where
  "resume_download = signal_download ''downloading''"

definition cancel_download :: "int \<Rightarrow> bool \<Rightarrow> manager \<Rightarrow> manager" where
  "cancel_download = signal_download ''cancelled''"

text \<open>\<^verbatim>\<open>retry_download\<close>: the result of \<^verbatim>\<open>start_download\<close> is dropped.\<close>

definition retry_download :: "int \<Rightarrow> manager \<Rightarrow> manager" where
  "retry_download did m =
     (case get_download_by_id (db_manager m) did of
        None \<Rightarrow> m
      | Some download \<Rightarrow>
          snd (start_download did (download Url) (download Format_id) (download File_path) m))"

text \<open>
  What can happen next: a call of the manager from the user interface, or one stretch
  of one worker thread with what the process gave it.
\<close>

datatype event =
    StartDownload int pyval pyval pyval
  | RetryDownload int
  | PauseDownload int bool
  | ResumeDownload int bool
  | CancelDownload int bool
  | WorkerMark nat
  | WorkerSpawn nat "string + nat"
  | WorkerLine nat string
  | WorkerReadError nat string
  | WorkerEof nat int string
  | WorkerFinally nat

fun step :: "event \<Rightarrow> manager \<Rightarrow> manager" where
  "step (StartDownload did u f p) m = snd (start_download did u f p m)"
| "step (RetryDownload did) m = retry_download did m"
| "step (PauseDownload did delivered) m = pause_download did delivered m"
| "step (ResumeDownload did delivered) m = resume_download did delivered m"
| "step (CancelDownload did delivered) m = cancel_download did delivered m"
| "step (WorkerMark t) m = worker_mark t m"
| "step (WorkerSpawn t res) m = worker_spawn t res m"
| "step (WorkerLine t output) m = worker_line t output m"
| "step (WorkerReadError t msg) m = worker_read_error t msg m"
| "step (WorkerEof t rc now) m = worker_eof t rc now m"
| "step (WorkerFinally t) m = worker_finally t m"

definition run :: "event list \<Rightarrow> manager \<Rightarrow> manager" where
  "run es m = foldl (\<lambda>m' e. step e m') m es"

text \<open>What an observer reads from the table.\<close>

definition cell :: "manager \<Rightarrow> int \<Rightarrow> column \<Rightarrow> pyval option" where
  "cell m did c = map_option (\<lambda>r. r c) (map_of (db_manager m) did)"

definition count_status :: "string \<Rightarrow> manager \<Rightarrow> nat" where
  "count_status s m = length (filter (\<lambda>(i, r). r Status = PyStr s) (db_manager m))"

text \<open>
  Two readings of the record invariant on \<^verbatim>\<open>completed_at\<close>, a cell being set when it is not
  NULL: set exactly when the status is \<^verbatim>\<open>completed\<close>, and set whenever it is.
\<close>

definition is_set :: "pyval \<Rightarrow> bool" where
  "is_set v = (v \<noteq> PyNone)"

definition completed_at_iff_completed :: "manager \<Rightarrow> bool" where
  "completed_at_iff_completed m =
     list_all (\<lambda>(i, r). is_set (r Completed_at) = (r Status = PyStr ''completed'')) (db_manager m)"

definition completed_has_timestamp :: "manager \<Rightarrow> bool" where
  "completed_has_timestamp m =
     list_all (\<lambda>(i, r). r Status = PyStr ''completed'' \<longrightarrow> is_set (r Completed_at)) (db_manager m)"

section \<open>Example data\<close>

text \<open>
  A row as the user interface inserts it (\<^verbatim>\<open>add_download\<close> leaves \<^verbatim>\<open>completed_at\<close>,
  \<^verbatim>\<open>speed\<close>, \<^verbatim>\<open>eta\<close> and \<^verbatim>\<open>error_message\<close> NULL), and a manager with the default settings
  (three concurrent downloads, no speed limit) over four such rows; the calls that start them.
\<close>

definition pending_row :: "string \<Rightarrow> row" where
  "pending_row u =
     (\<lambda>c. PyStr '''')
       (Url := PyStr u, Title := PyStr ''Unknown'', Platform := PyStr ''Unknown'',
        Format_id := PyStr ''22'', Quality := PyStr ''720p'', File_type := PyStr ''mp4'',
        File_path := PyStr ''/home/u/Downloads/Unknown.%(ext)s'', File_size := PyInt 0,
        Progress := PyFloat 0, Status := PyStr ''pending'',
        Created_at := PyStr ''2024-01-01T10:00:00'',
        Completed_at := PyNone, Speed := PyNone, Eta := PyNone, Error_message := PyNone)"

definition m0 :: manager where
  "m0 = \<lparr>db_manager = [(1, pending_row ''https://a/1''), (2, pending_row ''https://a/2''),
                       (3, pending_row ''https://a/3''), (4, pending_row ''https://a/4'')],
          active_downloads = [], download_threads = [], max_concurrent = 3,
          max_speed = ''0'', threads = []\<rparr>"

definition start_job :: "int \<Rightarrow> string \<Rightarrow> event" where
  "start_job n u = StartDownload n (PyStr u) (PyStr ''22'')
                     (PyStr ''/home/u/Downloads/Unknown.%(ext)s'')"

definition start1 :: event where
  "start1 = start_job 1 ''https://a/1''"

definition start2 :: event where
  "start2 = start_job 2 ''https://a/2''"

definition start3 :: event where
  "start3 = start_job 3 ''https://a/3''"

definition start4 :: event where
  "start4 = start_job 4 ''https://a/4''"

text \<open>
  Job 1 admitted, marked and its process started; job 1 failed because yt-dlp is not
  installed; three jobs admitted and marked whose workers have not yet started a process.
\<close>

definition running1 :: "event list" where
  "running1 = [start1, WorkerMark 0, WorkerSpawn 0 (Inr 4242)]"

definition failed1 :: "event list" where
  "failed1 = [start1, WorkerMark 0,
              WorkerSpawn 0 (Inl ''[Errno 2] No such file or directory: yt-dlp''), WorkerFinally 0]"

definition three_marked :: "event list" where
  "three_marked = [start1, start2, start3, WorkerMark 0, WorkerMark 1, WorkerMark 2]"

section \<open>The patterns\<close>

lemma span_all:
  "list_all P xs \<Longrightarrow> \<not> P y \<Longrightarrow>
   takeWhile P (xs @ y # ys) = xs \<and> dropWhile P (xs @ y # ys) = y # ys"
  by (induction xs) auto

lemma not_digit_percent [simp]: "\<not> is_digit (CHR ''%'')" "\<not> is_digit (CHR ''.'')"
  by (simp_all add: is_digit_def)

lemma match_percent_sound:
  assumes "match_percent s = Some tok"
  shows "numeric_token tok \<and> (\<exists>rest. s = tok @ CHR ''%'' # rest)"
proof -
  define d1 where "d1 = takeWhile is_digit s"
  define r1 where "r1 = dropWhile is_digit s"
  have s: "s = d1 @ r1" by (simp add: d1_def r1_def)
  have d1: "list_all is_digit d1"
    unfolding d1_def list_all_iff by (auto dest: set_takeWhileD)
  have eq: "(if d1 = [] then None
             else (case r1 of
                     [] \<Rightarrow> None
                   | c # r2 \<Rightarrow>
                       if c = CHR ''%'' then Some d1
                       else if c = CHR ''.'' then
                         (if dropWhile is_digit r2 \<noteq> [] \<and> hd (dropWhile is_digit r2) = CHR ''%''
                          then Some (d1 @ ''.'' @ takeWhile is_digit r2) else None)
                       else None)) = Some tok"
    using assms unfolding match_percent_def Let_def d1_def r1_def .
  then have ne: "d1 \<noteq> []" by (auto split: if_splits)
  show ?thesis
  proof (cases r1)
    case Nil
    with eq ne show ?thesis by simp
  next
    case (Cons c r2)
    define d2 where "d2 = takeWhile is_digit r2"
    define r3 where "r3 = dropWhile is_digit r2"
    have r2: "r2 = d2 @ r3" by (simp add: d2_def r3_def)
    have d2: "list_all is_digit d2"
      unfolding d2_def list_all_iff by (auto dest: set_takeWhileD)
    show ?thesis
    proof (cases "c = CHR ''%''")
      case True
      with eq ne Cons have "tok = d1" by simp
      with True s Cons d1 ne show ?thesis
        by (auto simp: numeric_token_def)
    next
      case False
      with eq ne Cons have c: "c = CHR ''.''" and r3: "r3 \<noteq> []" "hd r3 = CHR ''%''"
        and tok: "tok = d1 @ ''.'' @ d2"
        unfolding d2_def r3_def by (auto split: if_splits)
      from r3 obtain rest where "r3 = CHR ''%'' # rest" by (cases r3) auto
      with s Cons r2 c tok have "s = tok @ CHR ''%'' # rest" by simp
      moreover have "numeric_token tok"
        unfolding numeric_token_def using ne d1 d2 tok by blast
      ultimately show ?thesis by blast
    qed
  qed
qed

lemma match_percent_complete:
  assumes "numeric_token tok" "s = tok @ CHR ''%'' # rest"
  shows "match_percent s = Some tok"
proof -
  from assms(1) obtain d1 d2 where ne: "d1 \<noteq> []" and d1: "list_all is_digit d1"
    and d2: "list_all is_digit d2" and tok: "tok = d1 \<or> tok = d1 @ ''.'' @ d2"
    unfolding numeric_token_def by blast
  from tok show ?thesis
  proof
    assume t: "tok = d1"
    have "takeWhile is_digit s = d1 \<and> dropWhile is_digit s = CHR ''%'' # rest"
      using span_all [OF d1, of "CHR ''%''" rest] assms(2) t by simp
    with ne t show ?thesis by (simp add: match_percent_def)
  next
    assume t: "tok = d1 @ ''.'' @ d2"
    have a: "takeWhile is_digit s = d1 \<and> dropWhile is_digit s = CHR ''.'' # d2 @ CHR ''%'' # rest"
      using span_all [OF d1, of "CHR ''.''" "d2 @ CHR ''%'' # rest"] assms(2) t by simp
    have b: "takeWhile is_digit (d2 @ CHR ''%'' # rest) = d2 \<and>
             dropWhile is_digit (d2 @ CHR ''%'' # rest) = CHR ''%'' # rest"
      using span_all [OF d2, of "CHR ''%''" rest] by simp
    from a b ne t show ?thesis by (simp add: match_percent_def)
  qed
qed

lemma re_search_Some:
  "re_search m s = Some g \<Longrightarrow>
   \<exists>i\<le>length s. m (drop i s) = Some g \<and> (\<forall>j<i. m (drop j s) = None)"
proof (induction s)
  case Nil
  then show ?case by simp
next
  case (Cons c cs)
  show ?case
  proof (cases "m (c # cs)")
    case (Some g')
    with Cons.prems have "m (drop 0 (c # cs)) = Some g" by simp
    then show ?thesis by blast
  next
    case None
    with Cons.prems have "re_search m cs = Some g" by simp
    from Cons.IH [OF this] obtain i where i: "i \<le> length cs" "m (drop i cs) = Some g"
      "\<forall>j<i. m (drop j cs) = None" by blast
    have "\<forall>j<Suc i. m (drop j (c # cs)) = None"
    proof (intro allI impI)
      fix j assume "j < Suc i"
      then show "m (drop j (c # cs)) = None"
        using None i(3) by (cases j) auto
    qed
    with i(1,2) show ?thesis
      by (intro exI [of _ "Suc i"]) simp
  qed
qed

lemma re_search_None:
  "re_search m s = None \<longleftrightarrow> (\<forall>i\<le>length s. m (drop i s) = None)"
proof (induction s)
  case Nil
  then show ?case by simp
next
  case (Cons c cs)
  show ?case
  proof (cases "m (c # cs)")
    case (Some g)
    then have "m (drop 0 (c # cs)) \<noteq> None" by simp
    with Some show ?thesis by (metis le0 re_search.simps(2) option.simps(5) option.distinct(1))
  next
    case None
    have "(\<forall>i\<le>length (c # cs). m (drop i (c # cs)) = None) \<longleftrightarrow>
          (\<forall>i\<le>length cs. m (drop i cs) = None)"
    proof
      assume a: "\<forall>i\<le>length (c # cs). m (drop i (c # cs)) = None"
      show "\<forall>i\<le>length cs. m (drop i cs) = None"
      proof (intro allI impI)
        fix i assume "i \<le> length cs"
        with a have "m (drop (Suc i) (c # cs)) = None" by (metis Suc_le_mono length_Cons)
        then show "m (drop i cs) = None" by simp
      qed
    next
      assume a: "\<forall>i\<le>length cs. m (drop i cs) = None"
      show "\<forall>i\<le>length (c # cs). m (drop i (c # cs)) = None"
      proof (intro allI impI)
        fix i assume "i \<le> length (c # cs)"
        with a None show "m (drop i (c # cs)) = None" by (cases i) auto
      qed
    qed
    with None Cons.IH show ?thesis by simp
  qed
qed

lemma starts_with_append: "starts_with p s \<Longrightarrow> s = p @ drop (length p) s"
  by (induction p s rule: starts_with.induct) auto

lemma list_all_takeWhile: "list_all P (takeWhile P xs)"
  unfolding list_all_iff by (auto dest: set_takeWhileD)

lemma match_speed_sound:
  assumes "match_speed s = Some tok"
  shows "\<exists>ws num unit rest.
           s = ''at'' @ ws @ tok @ rest \<and> tok = num @ unit @ ''iB/s'' \<and>
           ws \<noteq> [] \<and> list_all is_space ws \<and> num \<noteq> [] \<and> list_all is_num_char num \<and>
           unit \<in> {[], ''K'', ''M'', ''G''}"
proof -
  define r0 where "r0 = drop 2 s"
  define ws where "ws = takeWhile is_space r0"
  define r1 where "r1 = dropWhile is_space r0"
  define num where "num = takeWhile is_num_char r1"
  define r2 where "r2 = dropWhile is_num_char r1"
  define unit where "unit = (if r2 \<noteq> [] \<and> hd r2 \<in> set ''KMG'' then [hd r2] else [])"
  define r3 where "r3 = drop (length unit) r2"
  have eq: "(if starts_with ''at'' s then
               (if ws \<noteq> [] \<and> num \<noteq> [] \<and> starts_with ''iB/s'' r3
                then Some (num @ unit @ ''iB/s'') else None)
             else None) = Some tok"
    using assms
    unfolding match_speed_def Let_def r0_def ws_def r1_def num_def r2_def unit_def r3_def .
  then have at: "starts_with ''at'' s" and ws: "ws \<noteq> []" and num: "num \<noteq> []"
    and sfx: "starts_with ''iB/s'' r3" and tok: "tok = num @ unit @ ''iB/s''"
    by (auto split: if_splits)
  have s: "s = ''at'' @ r0"
    using starts_with_append [OF at] by (simp add: r0_def eval_nat_numeral)
  have r0: "r0 = ws @ r1" by (simp add: ws_def r1_def)
  have r1: "r1 = num @ r2" by (simp add: num_def r2_def)
  have r2: "r2 = unit @ r3"
    unfolding r3_def unit_def by (cases r2) auto
  have r3: "r3 = ''iB/s'' @ drop 4 r3"
    using starts_with_append [OF sfx] by (simp add: eval_nat_numeral)
  have u: "unit \<in> {[], ''K'', ''M'', ''G''}"
    unfolding unit_def by auto
  have "s = ''at'' @ ws @ tok @ drop 4 r3"
    using s r0 r1 r2 r3 tok by (metis append.assoc)
  moreover have "list_all is_space ws" "list_all is_num_char num"
    unfolding ws_def num_def by (rule list_all_takeWhile)+
  ultimately show ?thesis using ws num u tok by blast
qed

lemma match_eta_sound:
  assumes "match_eta s = Some tok"
  shows "\<exists>ws rest.
           s = ''ETA'' @ ws @ tok @ rest \<and>
           ws \<noteq> [] \<and> list_all is_space ws \<and> tok \<noteq> [] \<and> list_all is_eta_char tok \<and>
           (rest = [] \<or> \<not> is_eta_char (hd rest))"
proof -
  define r0 where "r0 = drop 3 s"
  define ws where "ws = takeWhile is_space r0"
  define r1 where "r1 = dropWhile is_space r0"
  define rest where "rest = dropWhile is_eta_char r1"
  have eq: "(if starts_with ''ETA'' s then
               (if ws \<noteq> [] \<and> takeWhile is_eta_char r1 \<noteq> []
                then Some (takeWhile is_eta_char r1) else None)
             else None) = Some tok"
    using assms unfolding match_eta_def Let_def r0_def ws_def r1_def .
  then have eta: "starts_with ''ETA'' s" and ws: "ws \<noteq> []" and ne: "tok \<noteq> []"
    and tok: "tok = takeWhile is_eta_char r1"
    by (auto split: if_splits)
  have s: "s = ''ETA'' @ r0"
    using starts_with_append [OF eta] by (simp add: r0_def eval_nat_numeral)
  have r0: "r0 = ws @ r1" by (simp add: ws_def r1_def)
  have r1: "r1 = tok @ rest" by (simp add: tok rest_def)
  have "rest = [] \<or> \<not> is_eta_char (hd rest)"
    unfolding rest_def by (metis hd_dropWhile)
  moreover have "list_all is_space ws" "list_all is_eta_char tok"
    unfolding ws_def tok by (rule list_all_takeWhile)+
  moreover have "s = ''ETA'' @ ws @ tok @ rest"
    using s r0 r1 by simp
  ultimately show ?thesis using ws ne by blast
qed

lemma starts_with_self: "starts_with p (p @ r)"
  by (induction p) auto

lemma contains_drop: "i \<le> length line \<Longrightarrow> drop i line = p @ rest \<Longrightarrow> contains p line"
proof (induction line arbitrary: i)
  case Nil
  then show ?case by simp
next
  case (Cons c cs)
  show ?case
  proof (cases i)
    case 0
    with Cons.prems have "c # cs = p @ rest" by simp
    then have "starts_with p (c # cs)" by (metis starts_with_self)
    then show ?thesis by simp
  next
    case (Suc j)
    with Cons.prems have "j \<le> length cs" "drop j cs = p @ rest" by simp_all
    then have "contains p cs" by (rule Cons.IH)
    then show ?thesis by simp
  qed
qed

lemma speed_at_contains: "speed_at line i tok \<Longrightarrow> contains ''at'' line"
  unfolding speed_at_def by (blast intro: contains_drop)

lemma eta_at_contains: "eta_at line i tok \<Longrightarrow> contains ''ETA'' line"
  unfolding eta_at_def by (blast intro: contains_drop)

lemma first_percent:
  assumes "re_search match_percent line = Some g"
  shows "\<exists>i. percent_at line i g \<and> (\<forall>j tok. percent_at line j tok \<longrightarrow> i \<le> j)"
proof -
  from re_search_Some [OF assms] obtain i where i: "i \<le> length line"
    and m: "match_percent (drop i line) = Some g"
    and least: "\<forall>j<i. match_percent (drop j line) = None" by blast
  from match_percent_sound [OF m] i have "percent_at line i g"
    by (simp add: percent_at_def)
  moreover have "i \<le> j" if "percent_at line j tok" for j tok
  proof (rule ccontr)
    assume "\<not> i \<le> j"
    then have "match_percent (drop j line) = None" using least by simp
    moreover from that obtain rest where "numeric_token tok"
      "drop j line = tok @ CHR ''%'' # rest" by (auto simp: percent_at_def)
    then have "match_percent (drop j line) = Some tok" by (rule match_percent_complete)
    ultimately show False by simp
  qed
  ultimately show ?thesis by blast
qed

lemma no_percent:
  assumes "\<forall>i tok. \<not> percent_at line i tok"
  shows "re_search match_percent line = None"
proof (rule ccontr)
  assume "re_search match_percent line \<noteq> None"
  then obtain g where "re_search match_percent line = Some g" by auto
  from first_percent [OF this] assms show False by blast
qed

lemma no_speed:
  assumes "\<forall>i tok. \<not> speed_at line i tok"
  shows "re_search match_speed line = None"
proof (rule ccontr)
  assume "re_search match_speed line \<noteq> None"
  then obtain g where "re_search match_speed line = Some g" by auto
  from re_search_Some [OF this] obtain i where i: "i \<le> length line"
    and m: "match_speed (drop i line) = Some g" by blast
  from match_speed_sound [OF m] i have "speed_at line i g"
    unfolding speed_at_def by blast
  with assms show False by blast
qed

lemma no_eta:
  assumes "\<forall>i tok. \<not> eta_at line i tok"
  shows "re_search match_eta line = None"
proof (rule ccontr)
  assume "re_search match_eta line \<noteq> None"
  then obtain g where "re_search match_eta line = Some g" by auto
  from re_search_Some [OF this] obtain i where i: "i \<le> length line"
    and m: "match_eta (drop i line) = Some g" by blast
  from match_eta_sound [OF m] i have "eta_at line i g"
    unfolding eta_at_def by blast
  with assms show False by blast
qed

lemma progress_event_SomeD:
  assumes "progress_event line = Some (p, sp, e)"
  shows "contains ''[download]'' line"
    and "\<exists>g. re_search match_percent line = Some g \<and> p = py_float g"
    and "sp = (case re_search match_speed line of Some x \<Rightarrow> x | None \<Rightarrow> '''')"
    and "e = (case re_search match_eta line of Some x \<Rightarrow> x | None \<Rightarrow> '''')"
  using assms unfolding progress_event_def
  by (auto split: if_splits option.splits)

lemma py_float_nonneg: "0 \<le> py_float g"
  by (simp add: py_float_def Let_def)

text \<open>
  Claim C7. The line \<^verbatim>\<open>[download]  45.2% of 10.00MiB at 1.21MiB/s ETA 00:12\<close> gives the
  percentage 45.2, the speed \<^verbatim>\<open>1.21MiB/s\<close> and the eta \<^verbatim>\<open>00:12\<close>; and whenever a line gives
  an event, its percentage is the value of the numeric token followed by a percent
  sign that starts leftmost in the line: no such token starts before it.
\<close>

theorem parse_example_and_first_percentage:
  "progress_event ''[download]  45.2% of 10.00MiB at 1.21MiB/s ETA 00:12''
     = Some (452 / 10, ''1.21MiB/s'', ''00:12'')
   \<and> (progress_event line = Some (p, sp, e) \<longrightarrow>
        (\<exists>i tok. percent_at line i tok \<and> p = py_float tok \<and>
                  (\<forall>j tok'. percent_at line j tok' \<longrightarrow> i \<le> j)))"
proof (intro conjI impI)
  show "progress_event ''[download]  45.2% of 10.00MiB at 1.21MiB/s ETA 00:12''
     = Some (452 / 10, ''1.21MiB/s'', ''00:12'')"
    by code_simp
next
  assume "progress_event line = Some (p, sp, e)"
  from progress_event_SomeD(2) [OF this] obtain g
    where g: "re_search match_percent line = Some g" and p: "p = py_float g" by blast
  from first_percent [OF g] p
  show "\<exists>i tok. percent_at line i tok \<and> p = py_float tok \<and>
                  (\<forall>j tok'. percent_at line j tok' \<longrightarrow> i \<le> j)" by blast
qed

theorem first_of_two_percentages:
  "progress_event ''[download] 10% of A, 20% of B'' = Some (10, '''', '''')
   \<and> (\<exists>i tok. percent_at ''[download] 10% of A, 20% of B'' i tok \<and> (10::rat) = py_float tok \<and>
                  (\<forall>j tok'. percent_at ''[download] 10% of A, 20% of B'' j tok' \<longrightarrow> i \<le> j))"
proof -
  have e: "progress_event ''[download] 10% of A, 20% of B'' = Some (10, '''', '''')"
    by code_simp
  have "\<exists>i tok. percent_at ''[download] 10% of A, 20% of B'' i tok \<and> (10::rat) = py_float tok \<and>
                  (\<forall>j tok'. percent_at ''[download] 10% of A, 20% of B'' j tok' \<longrightarrow> i \<le> j)"
    by (rule mp [OF conjunct2 [OF parse_example_and_first_percentage] e])
  with e show ?thesis by (rule conjI)
qed

text \<open>
  Claim C8. A line without \<^verbatim>\<open>[download]\<close>, or without a numeric token followed by a percent
  sign, gives no event and \<^verbatim>\<open>parse_progress\<close> leaves the manager as it was (the function
  is total: the source swallows every exception of its body);
  \<^verbatim>\<open>WARNING: some unrelated message\<close> gives no event; and in a line that gives an event,
  a missing speed token gives the empty speed and a missing eta token the empty eta.
\<close>

theorem unmatched_line_no_event:
  "((\<not> contains ''[download]'' line \<or> (\<forall>i tok. \<not> percent_at line i tok)) \<longrightarrow>
      progress_event line = None \<and> parse_progress did line m = m)
   \<and> progress_event ''WARNING: some unrelated message'' = None
   \<and> (progress_event line' = Some (p, sp, e) \<longrightarrow>
        ((\<forall>i tok. \<not> speed_at line' i tok) \<longrightarrow> sp = '''') \<and>
        ((\<forall>i tok. \<not> eta_at line' i tok) \<longrightarrow> e = ''''))"
proof (intro conjI impI)
  assume a: "\<not> contains ''[download]'' line \<or> (\<forall>i tok. \<not> percent_at line i tok)"
  then show none: "progress_event line = None"
    using no_percent [of line] by (auto simp: progress_event_def)
  then show "parse_progress did line m = m"
    by (simp add: parse_progress_def)
next
  show "progress_event ''WARNING: some unrelated message'' = None"
    by code_simp
next
  assume a: "progress_event line' = Some (p, sp, e)" and b: "\<forall>i tok. \<not> speed_at line' i tok"
  show "sp = ''''"
    using progress_event_SomeD(3) [OF a] no_speed [OF b] by simp
next
  assume a: "progress_event line' = Some (p, sp, e)" and b: "\<forall>i tok. \<not> eta_at line' i tok"
  show "e = ''''"
    using progress_event_SomeD(4) [OF a] no_eta [OF b] by simp
qed

theorem unmatched_line_no_event_witness:
  "\<not> contains ''[download]'' ''ERROR: unable to download video data''
   \<and> progress_event ''ERROR: unable to download video data'' = None
   \<and> parse_progress 1 ''ERROR: unable to download video data'' m0 = m0
   \<and> (\<forall>i tok. \<not> speed_at ''[download] 100% of 10.00MiB in 00:08'' i tok)
   \<and> (\<forall>i tok. \<not> eta_at ''[download] 100% of 10.00MiB in 00:08'' i tok)
   \<and> progress_event ''[download] 100% of 10.00MiB in 00:08'' = Some (100, '''', '''')"
proof -
  let ?l = "''ERROR: unable to download video data''"
  let ?l' = "''[download] 100% of 10.00MiB in 00:08''"
  have a: "\<not> contains ''[download]'' ?l" by code_simp
  have "\<not> contains ''at'' ?l'" by code_simp
  then have b: "\<forall>i tok. \<not> speed_at ?l' i tok" using speed_at_contains by blast
  have "\<not> contains ''ETA'' ?l'" by code_simp
  then have c: "\<forall>i tok. \<not> eta_at ?l' i tok" using eta_at_contains by blast
  have ev: "progress_event ?l' = Some (100, [], [])" by code_simp
  note th = unmatched_line_no_event [of ?l 1 m0 ?l' 100 "[]" "[]"]
  from th a have 1: "progress_event ?l = None \<and> parse_progress 1 ?l m0 = m0" by blast
  from a 1 b c ev show ?thesis by simp
qed

section \<open>The table\<close>

lemma set_clause_other: "c \<notin> fst ` set kwargs \<Longrightarrow> set_clause kwargs r c = r c"
  unfolding set_clause_def
  by (induction kwargs arbitrary: r) (auto split: prod.splits)

lemma map_of_update_rows:
  "map_of (map (\<lambda>(i, r). if i = did then (i, f r) else (i, r)) tbl) j =
     (if j = did then map_option f (map_of tbl j) else map_of tbl j)"
  by (induction tbl) auto

lemma map_of_db_update:
  "kwargs \<noteq> [] \<Longrightarrow>
   map_of (db_update tbl did kwargs) j =
     (if j = did then map_option (set_clause kwargs) (map_of tbl j) else map_of tbl j)"
  by (simp add: db_update_def map_of_update_rows)

lemma set_clause_eq:
  "set_clause kwargs r c = (case map_of (rev kwargs) c of Some v \<Rightarrow> v | None \<Rightarrow> r c)"
proof (induction kwargs arbitrary: r)
  case Nil
  then show ?case by (simp add: set_clause_def)
next
  case (Cons kv kwargs)
  obtain c' v' where kv: "kv = (c', v')" by (cases kv)
  have "set_clause (kv # kwargs) r c = set_clause kwargs (r(c' := v')) c"
    by (simp add: set_clause_def kv)
  also have "\<dots> = (case map_of (rev kwargs) c of Some v \<Rightarrow> v | None \<Rightarrow> (r(c' := v')) c)"
    by (rule Cons.IH)
  finally show ?case
    by (simp add: kv map_add_def split: option.splits)
qed

lemma set_clause_supplied:
  assumes "distinct (map fst kwargs)" "(c, v) \<in> set kwargs"
  shows "set_clause kwargs r c = v"
proof -
  have "distinct (map fst (rev kwargs))" using assms(1) by (simp add: rev_map [symmetric])
  moreover have "(c, v) \<in> set (rev kwargs)" using assms(2) by simp
  ultimately have "map_of (rev kwargs) c = Some v" by (rule map_of_is_SomeI)
  then show ?thesis by (simp add: set_clause_eq)
qed

lemma filter_update_rows:
  "filter (\<lambda>(j, r). j \<noteq> did) (map (\<lambda>(i, r). if i = did then (i, f r) else (i, r)) tbl)
     = filter (\<lambda>(j, r). j \<noteq> did) tbl"
  by (induction tbl) auto

lemma map_fst_update_rows:
  "map fst (map (\<lambda>(i, r). if i = did then (i, f r) else (i, r)) tbl) = map fst tbl"
  by (induction tbl) auto

lemma map_fst_assignments:
  "map fst (map (\<lambda>(c, v). (c, stored sq c v)) kwargs) = map fst kwargs"
  by (induction kwargs) auto

lemma assignments_member:
  "(c, v) \<in> set kwargs \<Longrightarrow> (c, stored sq c v) \<in> set (map (\<lambda>(c, v). (c, stored sq c v)) kwargs)"
  by (induction kwargs) auto

lemma update_download_cases:
  obtains (raised) e where "update_download sq tbl did kwargs = Inl e"
      "after_update sq tbl did kwargs = tbl"
  | (returned) "update_download sq tbl did kwargs
        = Inr (map (\<lambda>(i, r). if i = did
                      then (i, set_clause (map (\<lambda>(c, v). (c, stored sq c v)) kwargs) r)
                      else (i, r)) tbl)"
      "after_update sq tbl did kwargs
        = map (\<lambda>(i, r). if i = did
                      then (i, set_clause (map (\<lambda>(c, v). (c, stored sq c v)) kwargs) r)
                      else (i, r)) tbl"
proof (cases "update_download sq tbl did kwargs")
  case (Inl e)
  then show ?thesis by (intro raised [of e]) (simp_all add: after_update_def)
next
  case (Inr tbl')
  then have "tbl' = map (\<lambda>(i, r). if i = did
                      then (i, set_clause (map (\<lambda>(c, v). (c, stored sq c v)) kwargs) r)
                      else (i, r)) tbl"
    by (auto simp: update_download_def Let_def split: if_splits)
  with Inr show ?thesis by (intro returned) (simp_all add: after_update_def)
qed

lemma plain_stored: "plain (c, v) \<Longrightarrow> stored sq c v = v"
  by (cases v; cases "column_affinity c") (simp_all add: plain_def stored_def)

lemma plain_not_too_large: "plain (c, v) \<Longrightarrow> \<not> too_large v"
  by (cases v) (simp_all add: plain_def too_large_def)

lemma plain_assignments:
  "list_all plain kwargs \<Longrightarrow> map (\<lambda>(c, v). (c, stored sq c v)) kwargs = kwargs"
  by (induction kwargs) (auto simp: plain_stored)

lemma plain_no_violation:
  assumes "list_all plain kwargs"
  shows "\<not> violates_not_null kwargs"
proof
  assume "violates_not_null kwargs"
  then obtain c where "map_of (rev kwargs) c = Some PyNone"
    by (auto simp: violates_not_null_def)
  then have "(c, PyNone) \<in> set kwargs" by (auto dest: map_of_SomeD)
  with assms have "plain (c, PyNone)" by (auto simp: list_all_iff)
  then show False by (simp add: plain_def)
qed

lemma db_update_is_update_download:
  assumes "kwargs \<noteq> []" "list_all plain kwargs" "int64 did"
  shows "update_download sq tbl did kwargs = Inr (db_update tbl did kwargs)"
proof -
  have "\<not> (\<exists>v \<in> snd ` set kwargs. too_large v)"
    using assms(2) by (auto simp: list_all_iff dest: plain_not_too_large)
  with assms show ?thesis
    by (simp add: update_download_def db_update_def plain_assignments plain_no_violation)
qed

lemma db_update_no_row: "did \<notin> fst ` set tbl \<Longrightarrow> db_update tbl did kwargs = tbl"
  unfolding db_update_def by (induction tbl) auto

lemma manager_kwargs_plain:
  "list_all plain [(Status, PyStr s)]"
  "list_all plain [(Status, PyStr s), (Error_message, PyStr msg)]"
  "list_all plain [(Progress, PyFloat p), (Speed, PyStr sp), (Eta, PyStr e)]"
  "list_all plain [(Status, PyStr s), (Progress, PyFloat p), (Completed_at, PyStr now)]"
  by (simp_all add: plain_def)

text \<open>
  Claim C9. For an existing row and every call of \<^verbatim>\<open>update_download\<close>, whether it returns
  or raises: in the table after the call the row has its old value in every column
  that was not supplied, the rows of all other ids are the same, in the same order, and
  no id is added or lost. When the call returns, each supplied column holds the
  supplied value as its column stores it. The call raises, and then writes nothing,
  exactly when no keyword is given, when an int is outside 64 bits, or when \<^verbatim>\<open>url\<close> would
  become NULL.
\<close>

theorem update_download_partial_merge:
  assumes "map_of tbl did = Some r"
  shows "(\<exists>r'. map_of (after_update sq tbl did kwargs) did = Some r' \<and>
             (\<forall>c. c \<notin> fst ` set kwargs \<longrightarrow> r' c = r c) \<and>
             (\<forall>tbl' c v. update_download sq tbl did kwargs = Inr tbl' \<and>
                 distinct (map fst kwargs) \<and> (c, v) \<in> set kwargs \<longrightarrow> r' c = stored sq c v))
         \<and> filter (\<lambda>(j, x). j \<noteq> did) (after_update sq tbl did kwargs)
             = filter (\<lambda>(j, x). j \<noteq> did) tbl
         \<and> (\<forall>j. j \<noteq> did \<longrightarrow> map_of (after_update sq tbl did kwargs) j = map_of tbl j)
         \<and> map fst (after_update sq tbl did kwargs) = map fst tbl
         \<and> (kwargs = [] \<longrightarrow> update_download sq tbl did kwargs = Inl OperationalError)
         \<and> (kwargs \<noteq> [] \<and> ((\<exists>v \<in> snd ` set kwargs. too_large v) \<or> \<not> int64 did) \<longrightarrow>
              update_download sq tbl did kwargs = Inl OverflowError)
         \<and> (kwargs \<noteq> [] \<and> \<not> (\<exists>v \<in> snd ` set kwargs. too_large v) \<and> int64 did \<and>
              violates_not_null (map (\<lambda>(c, v). (c, stored sq c v)) kwargs) \<longrightarrow>
              update_download sq tbl did kwargs = Inl IntegrityError)
         \<and> (kwargs \<noteq> [] \<and> \<not> (\<exists>v \<in> snd ` set kwargs. too_large v) \<and> int64 did \<and>
              \<not> violates_not_null (map (\<lambda>(c, v). (c, stored sq c v)) kwargs) \<longrightarrow>
              (\<exists>tbl'. update_download sq tbl did kwargs = Inr tbl'))"
proof -
  let ?as = "map (\<lambda>(c, v). (c, stored sq c v)) kwargs"
  have row: "did \<in> fst ` set tbl"
    using assms by (metis map_of_eq_None_iff option.distinct(1))
  have keys: "fst ` set ?as = fst ` set kwargs"
    using map_fst_assignments [of sq kwargs] by (metis set_map)
  have 1: "\<exists>r'. map_of (after_update sq tbl did kwargs) did = Some r' \<and>
             (\<forall>c. c \<notin> fst ` set kwargs \<longrightarrow> r' c = r c) \<and>
             (\<forall>tbl' c v. update_download sq tbl did kwargs = Inr tbl' \<and>
                 distinct (map fst kwargs) \<and> (c, v) \<in> set kwargs \<longrightarrow> r' c = stored sq c v)"
  proof (cases rule: update_download_cases [of sq tbl did kwargs])
    case (raised e)
    with assms show ?thesis by simp
  next
    case returned
    have a: "map_of (after_update sq tbl did kwargs) did = Some (set_clause ?as r)"
      using assms by (simp add: returned(2) map_of_update_rows)
    have b: "\<forall>c. c \<notin> fst ` set kwargs \<longrightarrow> set_clause ?as r c = r c"
      using keys by (simp add: set_clause_other)
    have c: "set_clause ?as r c = stored sq c v"
      if "distinct (map fst kwargs)" "(c, v) \<in> set kwargs" for c v
    proof (rule set_clause_supplied)
      show "distinct (map fst ?as)"
        using that(1) by (simp only: map_fst_assignments)
      show "(c, stored sq c v) \<in> set ?as"
        using that(2) by (rule assignments_member)
    qed
    from a b c show ?thesis by blast
  qed
  have 2: "filter (\<lambda>(j, x). j \<noteq> did) (after_update sq tbl did kwargs)
             = filter (\<lambda>(j, x). j \<noteq> did) tbl"
    by (cases rule: update_download_cases [of sq tbl did kwargs])
       (simp_all add: filter_update_rows)
  have 3: "\<forall>j. j \<noteq> did \<longrightarrow> map_of (after_update sq tbl did kwargs) j = map_of tbl j"
    by (cases rule: update_download_cases [of sq tbl did kwargs])
       (simp_all add: map_of_update_rows)
  have 4: "map fst (after_update sq tbl did kwargs) = map fst tbl"
  proof (cases rule: update_download_cases [of sq tbl did kwargs])
    case (raised e)
    then show ?thesis by simp
  next
    case returned
    show ?thesis unfolding returned(2) by (rule map_fst_update_rows)
  qed
  have 5: "kwargs = [] \<longrightarrow> update_download sq tbl did kwargs = Inl OperationalError"
    by (simp add: update_download_def)
  have 6: "kwargs \<noteq> [] \<and> ((\<exists>v \<in> snd ` set kwargs. too_large v) \<or> \<not> int64 did) \<longrightarrow>
              update_download sq tbl did kwargs = Inl OverflowError"
    by (auto simp: update_download_def)
  have 7: "kwargs \<noteq> [] \<and> \<not> (\<exists>v \<in> snd ` set kwargs. too_large v) \<and> int64 did \<and>
              violates_not_null ?as \<longrightarrow>
              update_download sq tbl did kwargs = Inl IntegrityError"
    using row by (auto simp: update_download_def Let_def)
  have 8: "kwargs \<noteq> [] \<and> \<not> (\<exists>v \<in> snd ` set kwargs. too_large v) \<and> int64 did \<and>
              \<not> violates_not_null ?as \<longrightarrow>
              (\<exists>tbl'. update_download sq tbl did kwargs = Inr tbl')"
    by (auto simp: update_download_def Let_def)
  from 1 2 3 4 5 6 7 8 show ?thesis by blast
qed

theorem update_download_partial_merge_witness:
  "map_of (db_manager m0) 1 = Some (pending_row ''https://a/1'') \<and>
   (\<forall>sq. \<exists>tbl' r'.
      update_download sq (db_manager m0) 1 [(Status, PyStr ''paused''), (Progress, PyInt 50)] = Inr tbl' \<and>
      map_of tbl' 1 = Some r' \<and> r' Status = PyStr ''paused'' \<and> r' Progress = PyFloat 50 \<and>
      r' Url = pending_row ''https://a/1'' Url \<and>
      map_of tbl' 2 = map_of (db_manager m0) 2) \<and>
   (\<forall>sq. update_download sq (db_manager m0) 1 [(Url, PyNone)] = Inl IntegrityError \<and>
      after_update sq (db_manager m0) 1 [(Url, PyNone)] = db_manager m0) \<and>
   (\<forall>sq. update_download sq (db_manager m0) 1 [(File_size, PyInt (2 ^ 63))] = Inl OverflowError)"
proof -
  have a: "map_of (db_manager m0) 1 = Some (pending_row ''https://a/1'')"
    by (simp add: m0_def)
  have 1: "\<exists>tbl' r'.
      update_download sq (db_manager m0) 1 [(Status, PyStr ''paused''), (Progress, PyInt 50)] = Inr tbl' \<and>
      map_of tbl' 1 = Some r' \<and> r' Status = PyStr ''paused'' \<and> r' Progress = PyFloat 50 \<and>
      r' Url = pending_row ''https://a/1'' Url \<and>
      map_of tbl' 2 = map_of (db_manager m0) 2" for sq
  proof -
    let ?kw = "[(Status, PyStr ''paused''), (Progress, PyInt 50)]"
    note th = update_download_partial_merge [OF a, of sq ?kw]
    note A = th [THEN conjunct1]
    note C = th [THEN conjunct2, THEN conjunct2, THEN conjunct1]
    note H = th [THEN conjunct2, THEN conjunct2, THEN conjunct2, THEN conjunct2, THEN conjunct2,
                 THEN conjunct2, THEN conjunct2]
    have ok: "?kw \<noteq> [] \<and> \<not> (\<exists>v \<in> snd ` set ?kw. too_large v) \<and> int64 1 \<and>
                \<not> violates_not_null (map (\<lambda>(c, v). (c, stored sq c v)) ?kw)"
      by (simp add: too_large_def int64_def violates_not_null_def not_null_def)
    from mp [OF H ok] obtain tbl' where u: "update_download sq (db_manager m0) 1 ?kw = Inr tbl'" ..
    then have au: "after_update sq (db_manager m0) 1 ?kw = tbl'"
      by (simp add: after_update_def)
    from A obtain r' where r': "map_of (after_update sq (db_manager m0) 1 ?kw) 1 = Some r'"
      and frame: "\<forall>c. c \<notin> fst ` set ?kw \<longrightarrow> r' c = pending_row ''https://a/1'' c"
      and supplied: "\<forall>tbl' c v. update_download sq (db_manager m0) 1 ?kw = Inr tbl' \<and>
                   distinct (map fst ?kw) \<and> (c, v) \<in> set ?kw \<longrightarrow> r' c = stored sq c v"
      by (elim exE conjE)
    have 1: "r' Url = pending_row ''https://a/1'' Url"
      using frame [rule_format, of Url] by simp
    have "r' Status = stored sq Status (PyStr ''paused'')"
      using supplied [rule_format, of tbl' Status "PyStr ''paused''"] u by simp
    then have 2: "r' Status = PyStr ''paused''" by (simp add: stored_def)
    have "r' Progress = stored sq Progress (PyInt 50)"
      using supplied [rule_format, of tbl' Progress "PyInt 50"] u by simp
    then have 3: "r' Progress = PyFloat 50" by (simp add: stored_def)
    have 4: "map_of tbl' 2 = map_of (db_manager m0) 2"
      using C [rule_format, of 2] unfolding au by simp
    from r' have 5: "map_of tbl' 1 = Some r'" unfolding au .
    from u 5 2 3 1 4 show ?thesis by (intro exI conjI)
  qed
  have 2: "update_download sq (db_manager m0) 1 [(Url, PyNone)] = Inl IntegrityError \<and>
      after_update sq (db_manager m0) 1 [(Url, PyNone)] = db_manager m0" for sq
    by (simp add: after_update_def update_download_def too_large_def int64_def
        violates_not_null_def not_null_def stored_def m0_def)
  have 3: "update_download sq (db_manager m0) 1 [(File_size, PyInt (2 ^ 63))] = Inl OverflowError"
    for sq
    by (simp add: update_download_def too_large_def int64_def)
  show ?thesis
  proof (intro conjI allI)
    show "map_of (db_manager m0) 1 = Some (pending_row ''https://a/1'')" by (rule a)
  qed (rule 1 2 [THEN conjunct1] 2 [THEN conjunct2] 3)+
qed

section \<open>Calls for a job without a process\<close>

text \<open>
  Claim C10. For a download id that is not a key of \<^verbatim>\<open>active_downloads\<close>, the calls
  \<^verbatim>\<open>pause_download\<close>, \<^verbatim>\<open>resume_download\<close> and \<^verbatim>\<open>cancel_download\<close> return the manager
  unchanged (table included), whether or not a signal could have been delivered.
\<close>

theorem signal_without_process_noop:
  assumes "did \<notin> fst ` set (active_downloads m)"
  shows "pause_download did delivered m = m \<and> resume_download did delivered m = m \<and>
         cancel_download did delivered m = m"
  using assms
  by (simp add: pause_download_def resume_download_def cancel_download_def signal_download_def)

theorem signal_without_process_noop_witness:
  "(1::int) \<notin> fst ` set (active_downloads m0) \<and> cell m0 1 Status = Some (PyStr ''pending'') \<and>
   pause_download 1 True m0 = m0 \<and> resume_download 1 True m0 = m0 \<and>
   cancel_download 1 True m0 = m0"
proof -
  have a: "(1::int) \<notin> fst ` set (active_downloads m0)" by (simp add: m0_def)
  have b: "cell m0 1 Status = Some (PyStr ''pending'')" by code_simp
  from a b signal_without_process_noop [OF a, of True] show ?thesis by simp
qed

section \<open>Exceptions in the worker and its return\<close>

lemma cell_set_db:
  "cell (set_db tbl m) j c = map_option (\<lambda>r. r c) (map_of tbl j)"
  by (simp add: cell_def set_db_def)

lemma cell_set_phase: "cell (set_phase t ph m) j c = cell m j c"
  by (simp add: cell_def set_phase_def)

lemma phase_set_phase:
  "t < length (threads m) \<Longrightarrow>
   phase (threads (set_phase t ph m) ! u) = (if u = t then ph else phase (threads m ! u))"
  by (simp add: set_phase_def nth_list_update)

lemma download_id_set_phase:
  "download_id (threads (set_phase t ph m) ! u) = download_id (threads m ! u)"
  by (cases "t < length (threads m)"; cases "u = t") (simp_all add: set_phase_def list_update_beyond)

lemma length_threads_set_phase: "length (threads (set_phase t ph m)) = length (threads m)"
  by (simp add: set_phase_def)

lemma threads_set_db: "threads (set_db tbl m) = threads m"
  by (simp add: set_db_def)

lemma active_set_db: "active_downloads (set_db tbl m) = active_downloads m"
  by (simp add: set_db_def)

lemma active_set_phase: "active_downloads (set_phase t ph m) = active_downloads m"
  by (simp add: set_phase_def)

lemma db_set_phase: "db_manager (set_phase t ph m) = db_manager m"
  by (simp add: set_phase_def)

lemma db_set_db: "db_manager (set_db tbl m) = tbl"
  by (simp add: set_db_def)

lemmas mgr_simps = cell_set_db cell_set_phase phase_set_phase download_id_set_phase
  length_threads_set_phase threads_set_db active_set_db active_set_phase db_set_phase db_set_db

lemma cell_db_update:
  assumes "kwargs \<noteq> []" "did \<in> fst ` set (db_manager m)"
  shows "cell (set_db (db_update (db_manager m) did kwargs) m) did c
           = Some (set_clause kwargs (the (map_of (db_manager m) did)) c)"
proof -
  from assms(2) obtain r where "map_of (db_manager m) did = Some r"
    by (metis map_of_eq_None_iff option.exhaust)
  with assms(1) show ?thesis by (simp add: cell_set_db map_of_db_update)
qed

lemma failed_kwargs:
  "set_clause [(Status, PyStr ''failed''), (Error_message, PyStr msg)] r Status = PyStr ''failed''"
  "set_clause [(Status, PyStr ''failed''), (Error_message, PyStr msg)] r Error_message = PyStr msg"
  by (simp_all add: set_clause_def)

lemma parse_progress_threads: "threads (parse_progress did line m) = threads m"
  by (simp add: parse_progress_def threads_set_db split: option.splits prod.splits)

lemma signal_threads: "threads (signal_download s did d m) = threads m"
  by (simp add: signal_download_def threads_set_db)

lemma start_threads_nth:
  "u < length (threads m) \<Longrightarrow> threads (snd (start_download did a b c m)) ! u = threads m ! u"
  by (simp add: start_download_def nth_append)

lemma retry_threads_nth:
  "u < length (threads m) \<Longrightarrow> threads (retry_download did m) ! u = threads m ! u"
  by (simp add: retry_download_def start_threads_nth split: option.splits)

lemma exit_only_by_finally:
  assumes u: "u < length (threads n)"
    and before: "phase (threads n ! u) \<noteq> Exited"
    and after: "phase (threads (step e n) ! u) = Exited"
  shows "e = WorkerFinally u \<and> phase (threads n ! u) = Finishing"
proof (cases e)
  case (StartDownload did a b c)
  with u before after show ?thesis by (simp add: start_threads_nth)
next
  case (RetryDownload did)
  with u before after show ?thesis by (simp add: retry_threads_nth)
next
  case (PauseDownload did d)
  with u before after show ?thesis by (simp add: pause_download_def signal_threads)
next
  case (ResumeDownload did d)
  with u before after show ?thesis by (simp add: resume_download_def signal_threads)
next
  case (CancelDownload did d)
  with u before after show ?thesis by (simp add: cancel_download_def signal_threads)
next
  case (WorkerMark t)
  with u before after show ?thesis
    by (auto simp: worker_mark_def mgr_simps split: if_splits)
next
  case (WorkerSpawn t res)
  with u before after show ?thesis
    by (auto simp: worker_spawn_def mgr_simps Let_def set_phase_def nth_list_update
        split: if_splits sum.splits)
next
  case (WorkerLine t line)
  with u before after show ?thesis
    by (auto simp: worker_line_def parse_progress_threads split: if_splits phase.splits)
next
  case (WorkerReadError t msg)
  with u before after show ?thesis
    by (auto simp: worker_read_error_def mgr_simps split: if_splits phase.splits)
next
  case (WorkerEof t rc now)
  with u before after show ?thesis
    by (auto simp: worker_eof_def mgr_simps split: if_splits phase.splits)
next
  case (WorkerFinally t)
  with u before after show ?thesis
    by (auto simp: worker_finally_def Let_def set_phase_def nth_list_update split: if_splits)
qed

lemma finally_releases:
  assumes "u < length (threads n)" "phase (threads n ! u) = Finishing"
  shows "phase (threads (worker_finally u n) ! u) = Exited"
    and "download_id (threads n ! u) \<notin> fst ` set (active_downloads (worker_finally u n))"
    and "length (active_downloads (worker_finally u n)) \<le> length (active_downloads n)"
  using assms
  by (simp_all add: worker_finally_def Let_def set_phase_def delete_notin_dom length_delete_le)

text \<open>
  Claim C5, as the code has it. When \<^verbatim>\<open>Popen\<close> raises in a worker that has a row, or
  \<^verbatim>\<open>readline()\<close> raises in its read loop, the worker writes the status \<^verbatim>\<open>failed\<close> with
  \<^verbatim>\<open>str(e)\<close> as error detail, whatever that text is: the detail is not empty when the
  exception has a message, and nothing replaces an empty one. The worker then goes on
  to its \<^verbatim>\<open>finally\<close> block: the exception does not leave it. A worker returns only through
  the \<^verbatim>\<open>finally\<close> block, whatever it wrote before, and after that block its download id
  is not a key of \<^verbatim>\<open>active_downloads\<close>, which has not grown.
\<close>

theorem worker_exception_recorded_and_released:
  "(t < length (threads m) \<and> phase (threads m ! t) = Marked \<and>
      download_id (threads m ! t) \<in> fst ` set (db_manager m) \<longrightarrow>
      cell (worker_spawn t (Inl msg) m) (download_id (threads m ! t)) Status = Some (PyStr ''failed'') \<and>
      cell (worker_spawn t (Inl msg) m) (download_id (threads m ! t)) Error_message = Some (PyStr msg) \<and>
      phase (threads (worker_spawn t (Inl msg) m) ! t) = Finishing \<and>
      (msg \<noteq> [] \<longrightarrow>
         cell (worker_spawn t (Inl msg) m) (download_id (threads m ! t)) Error_message
           \<noteq> Some (PyStr [])))
   \<and> (t' < length (threads m') \<and> phase (threads m' ! t') = Reading pr \<and>
      download_id (threads m' ! t') \<in> fst ` set (db_manager m') \<longrightarrow>
      cell (worker_read_error t' msg' m') (download_id (threads m' ! t')) Status = Some (PyStr ''failed'') \<and>
      cell (worker_read_error t' msg' m') (download_id (threads m' ! t')) Error_message = Some (PyStr msg') \<and>
      phase (threads (worker_read_error t' msg' m') ! t') = Finishing \<and>
      (msg' \<noteq> [] \<longrightarrow>
         cell (worker_read_error t' msg' m') (download_id (threads m' ! t')) Error_message
           \<noteq> Some (PyStr [])))
   \<and> (u < length (threads n) \<and> phase (threads n ! u) = Finishing \<longrightarrow>
      phase (threads (worker_finally u n) ! u) = Exited \<and>
      download_id (threads n ! u) \<notin> fst ` set (active_downloads (worker_finally u n)) \<and>
      length (active_downloads (worker_finally u n)) \<le> length (active_downloads n))
   \<and> (u' < length (threads n') \<and> phase (threads n' ! u') \<noteq> Exited \<and>
      phase (threads (step e n') ! u') = Exited \<longrightarrow>
      e = WorkerFinally u' \<and> phase (threads n' ! u') = Finishing \<and>
      download_id (threads n' ! u') \<notin> fst ` set (active_downloads (step e n')))"
proof (intro conjI impI)
  assume a: "t < length (threads m) \<and> phase (threads m ! t) = Marked \<and>
      download_id (threads m ! t) \<in> fst ` set (db_manager m)"
  then show "cell (worker_spawn t (Inl msg) m) (download_id (threads m ! t)) Status = Some (PyStr ''failed'')"
    by (simp add: worker_spawn_def cell_set_phase cell_db_update failed_kwargs)
  from a show "cell (worker_spawn t (Inl msg) m) (download_id (threads m ! t)) Error_message = Some (PyStr msg)"
    by (simp add: worker_spawn_def cell_set_phase cell_db_update failed_kwargs)
  from a show "phase (threads (worker_spawn t (Inl msg) m) ! t) = Finishing"
    by (simp add: worker_spawn_def mgr_simps)
  assume "msg \<noteq> []"
  with a show "cell (worker_spawn t (Inl msg) m) (download_id (threads m ! t)) Error_message
           \<noteq> Some (PyStr [])"
    by (simp add: worker_spawn_def cell_set_phase cell_db_update failed_kwargs)
next
  assume a: "t' < length (threads m') \<and> phase (threads m' ! t') = Reading pr \<and>
      download_id (threads m' ! t') \<in> fst ` set (db_manager m')"
  then show "cell (worker_read_error t' msg' m') (download_id (threads m' ! t')) Status = Some (PyStr ''failed'')"
    by (simp add: worker_read_error_def cell_set_phase cell_db_update failed_kwargs)
  from a show "cell (worker_read_error t' msg' m') (download_id (threads m' ! t')) Error_message = Some (PyStr msg')"
    by (simp add: worker_read_error_def cell_set_phase cell_db_update failed_kwargs)
  from a show "phase (threads (worker_read_error t' msg' m') ! t') = Finishing"
    by (simp add: worker_read_error_def mgr_simps)
  assume "msg' \<noteq> []"
  with a show "cell (worker_read_error t' msg' m') (download_id (threads m' ! t')) Error_message
           \<noteq> Some (PyStr [])"
    by (simp add: worker_read_error_def cell_set_phase cell_db_update failed_kwargs)
next
  assume a: "u < length (threads n) \<and> phase (threads n ! u) = Finishing"
  then show "phase (threads (worker_finally u n) ! u) = Exited"
    by (simp add: finally_releases)
  from a show "download_id (threads n ! u) \<notin> fst ` set (active_downloads (worker_finally u n))"
    by (simp add: finally_releases)
  from a show "length (active_downloads (worker_finally u n)) \<le> length (active_downloads n)"
    by (simp add: finally_releases)
next
  assume a: "u' < length (threads n') \<and> phase (threads n' ! u') \<noteq> Exited \<and>
      phase (threads (step e n') ! u') = Exited"
  then have e: "e = WorkerFinally u' \<and> phase (threads n' ! u') = Finishing"
    using exit_only_by_finally by blast
  then show "e = WorkerFinally u'" "phase (threads n' ! u') = Finishing" by simp_all
  from a e show "download_id (threads n' ! u') \<notin> fst ` set (active_downloads (step e n'))"
    by (simp add: finally_releases)
qed

text \<open>
  An exception without a message, such as \<^verbatim>\<open>MemoryError()\<close>, has \<^verbatim>\<open>str(e) == ''\<close>: the job fails
  with an empty error detail, at the start of the process and in the read loop alike.
\<close>

theorem exception_without_message_gives_empty_detail:
  "cell (worker_spawn 0 (Inl []) (run [start1, WorkerMark 0] m0)) 1 Status = Some (PyStr ''failed'')
   \<and> cell (worker_spawn 0 (Inl []) (run [start1, WorkerMark 0] m0)) 1 Error_message = Some (PyStr [])
   \<and> cell (worker_read_error 0 [] (run running1 m0)) 1 Status = Some (PyStr ''failed'')
   \<and> cell (worker_read_error 0 [] (run running1 m0)) 1 Error_message = Some (PyStr [])"
  by code_simp

theorem worker_exception_recorded_and_released_witness:
  "cell (worker_spawn 0 (Inl ''[Errno 2] No such file or directory: yt-dlp'')
           (run [start1, WorkerMark 0] m0)) 1 Status = Some (PyStr ''failed'')
   \<and> cell (worker_spawn 0 (Inl ''[Errno 2] No such file or directory: yt-dlp'')
           (run [start1, WorkerMark 0] m0)) 1 Error_message
         = Some (PyStr ''[Errno 2] No such file or directory: yt-dlp'')
   \<and> cell (worker_spawn 0 (Inl ''[Errno 2] No such file or directory: yt-dlp'')
           (run [start1, WorkerMark 0] m0)) 1 Error_message \<noteq> Some (PyStr [])
   \<and> cell (worker_read_error 0 ''I/O operation on closed file''
           (run [start1, WorkerMark 0, WorkerSpawn 0 (Inr 4242)] m0)) 1 Status = Some (PyStr ''failed'')
   \<and> (1::int) \<in> fst ` set (active_downloads (run [start1, WorkerMark 0, WorkerSpawn 0 (Inr 4242),
           WorkerEof 0 0 ''2024-01-01T10:05:00''] m0))
   \<and> (1::int) \<notin> fst ` set (active_downloads (step (WorkerFinally 0)
           (run [start1, WorkerMark 0, WorkerSpawn 0 (Inr 4242),
                 WorkerEof 0 0 ''2024-01-01T10:05:00''] m0)))"
proof -
  let ?msg = "''[Errno 2] No such file or directory: yt-dlp''"
  let ?m = "run [start1, WorkerMark 0] m0"
  let ?m' = "run [start1, WorkerMark 0, WorkerSpawn 0 (Inr 4242)] m0"
  let ?n = "run [start1, WorkerMark 0, WorkerSpawn 0 (Inr 4242),
                 WorkerEof 0 0 ''2024-01-01T10:05:00''] m0"
  let ?pr = "Popen 4242 (build_cmd ''0'' (PyStr ''22'') (PyStr ''/home/u/Downloads/Unknown.%(ext)s'')
                (PyStr ''https://a/1''))"
  have m: "0 < length (threads ?m)" "phase (threads ?m ! 0) = Marked"
    "download_id (threads ?m ! 0) = 1" "(1::int) \<in> fst ` set (db_manager ?m)"
    by code_simp+
  have m': "0 < length (threads ?m')" "phase (threads ?m' ! 0) = Reading ?pr"
    "download_id (threads ?m' ! 0) = 1" "(1::int) \<in> fst ` set (db_manager ?m')"
    by code_simp+
  have n: "0 < length (threads ?n)" "phase (threads ?n ! 0) = Finishing"
    "download_id (threads ?n ! 0) = 1" "(1::int) \<in> fst ` set (active_downloads ?n)"
    by code_simp+
  have x: "phase (threads ?n ! 0) \<noteq> Exited" "phase (threads (step (WorkerFinally 0) ?n) ! 0) = Exited"
    by code_simp+
  note th = worker_exception_recorded_and_released [of 0 ?m ?msg 0 ?m' ?pr "''I/O operation on closed file''" 0 ?n 0 ?n "WorkerFinally 0"]
  have ne: "?msg \<noteq> []" by simp
  from th m ne have 1: "cell (worker_spawn 0 (Inl ?msg) ?m) 1 Status = Some (PyStr ''failed'') \<and>
      cell (worker_spawn 0 (Inl ?msg) ?m) 1 Error_message = Some (PyStr ?msg) \<and>
      cell (worker_spawn 0 (Inl ?msg) ?m) 1 Error_message \<noteq> Some (PyStr [])"
    by simp
  from th m' have 2: "cell (worker_read_error 0 ''I/O operation on closed file'' ?m') 1 Status
      = Some (PyStr ''failed'')"
    by simp
  from th n x have 3: "(1::int) \<notin> fst ` set (active_downloads (step (WorkerFinally 0) ?n))"
    by simp
  from 1 2 3 n(4) show ?thesis by simp
qed

section \<open>Progress\<close>

lemma progress_kwargs:
  "set_clause [(Progress, PyFloat p), (Speed, PyStr sp), (Eta, PyStr e)] r Progress = PyFloat p"
  "set_clause [(Progress, PyFloat p), (Speed, PyStr sp), (Eta, PyStr e)] r Status = r Status"
  "set_clause [(Progress, PyFloat p), (Speed, PyStr sp), (Eta, PyStr e)] r Completed_at = r Completed_at"
  by (simp_all add: set_clause_def)

lemma completed_kwargs:
  "set_clause [(Status, PyStr ''completed''), (Progress, PyFloat 100), (Completed_at, PyStr now)] r Status
     = PyStr ''completed''"
  "set_clause [(Status, PyStr ''completed''), (Progress, PyFloat 100), (Completed_at, PyStr now)] r Progress
     = PyFloat 100"
  "set_clause [(Status, PyStr ''completed''), (Progress, PyFloat 100), (Completed_at, PyStr now)] r Completed_at
     = PyStr now"
  by (simp_all add: set_clause_def)

lemma status_kwargs:
  "set_clause [(Status, v)] r Status = v"
  "set_clause [(Status, v)] r Completed_at = r Completed_at"
  by (simp_all add: set_clause_def)

lemma cell_Some_the:
  "did \<in> fst ` set (db_manager m) \<Longrightarrow> cell m did c = Some (the (map_of (db_manager m) did) c)"
  by (cases "map_of (db_manager m) did") (auto simp: cell_def map_of_eq_None_iff)

text \<open>
  Claim C3, as the code has it. A line read by a worker that gives a progress event
  overwrites the stored progress with the percentage of that line, whatever was stored
  before; that percentage is at least 0 (the pattern has no sign) and is not compared
  with 100 or with the earlier value; the status is left as it was. The write that
  marks the job completed sets the progress to exactly 100.
\<close>

theorem progress_is_latest_percentage:
  "(t < length (threads m) \<and> phase (threads m ! t) = Reading pr \<and>
      download_id (threads m ! t) \<in> fst ` set (db_manager m) \<and>
      output \<noteq> [] \<and> progress_event (strip output) = Some (p, sp, e) \<longrightarrow>
      cell (worker_line t output m) (download_id (threads m ! t)) Progress = Some (PyFloat p) \<and>
      0 \<le> p \<and>
      cell (worker_line t output m) (download_id (threads m ! t)) Status
        = cell m (download_id (threads m ! t)) Status)
   \<and> (t' < length (threads m') \<and> phase (threads m' ! t') = Reading pr' \<and>
      download_id (threads m' ! t') \<in> fst ` set (db_manager m') \<longrightarrow>
      cell (worker_eof t' 0 now m') (download_id (threads m' ! t')) Status = Some (PyStr ''completed'') \<and>
      cell (worker_eof t' 0 now m') (download_id (threads m' ! t')) Progress = Some (PyFloat 100))"
proof (intro conjI impI)
  assume a: "t < length (threads m) \<and> phase (threads m ! t) = Reading pr \<and>
      download_id (threads m ! t) \<in> fst ` set (db_manager m) \<and>
      output \<noteq> [] \<and> progress_event (strip output) = Some (p, sp, e)"
  then have wl: "worker_line t output m =
      set_db (db_update (db_manager m) (download_id (threads m ! t))
                [(Progress, PyFloat p), (Speed, PyStr sp), (Eta, PyStr e)]) m"
    by (simp add: worker_line_def parse_progress_def)
  from a show "cell (worker_line t output m) (download_id (threads m ! t)) Progress = Some (PyFloat p)"
    unfolding wl by (simp add: cell_db_update progress_kwargs)
  from a obtain g where "p = py_float g"
    using progress_event_SomeD(2) by blast
  then show "0 \<le> p" by (simp add: py_float_nonneg)
  from a show "cell (worker_line t output m) (download_id (threads m ! t)) Status
        = cell m (download_id (threads m ! t)) Status"
    unfolding wl by (simp add: cell_db_update progress_kwargs cell_Some_the)
next
  assume a: "t' < length (threads m') \<and> phase (threads m' ! t') = Reading pr' \<and>
      download_id (threads m' ! t') \<in> fst ` set (db_manager m')"
  then show "cell (worker_eof t' 0 now m') (download_id (threads m' ! t')) Status = Some (PyStr ''completed'')"
    by (simp add: worker_eof_def cell_set_phase cell_db_update completed_kwargs)
  from a show "cell (worker_eof t' 0 now m') (download_id (threads m' ! t')) Progress = Some (PyFloat 100)"
    by (simp add: worker_eof_def cell_set_phase cell_db_update completed_kwargs)
qed

text \<open>
  The progress of a downloading job goes from 100 back to 0 when yt-dlp starts the second
  file of a two-file format, and a line that reports 100.5% stores 100.5.
\<close>

theorem progress_decreases_and_exceeds_100:
  "cell (run (running1 @ [WorkerLine 0 ''[download] 100% of 10.00MiB in 00:08'']) m0) 1 Progress
     = Some (PyFloat 100)
   \<and> cell (run (running1 @ [WorkerLine 0 ''[download] 100% of 10.00MiB in 00:08'']) m0) 1 Status
     = Some (PyStr ''downloading'')
   \<and> cell (run (running1 @ [WorkerLine 0 ''[download] 100% of 10.00MiB in 00:08'',
                            WorkerLine 0 ''[download]   0.0% of 3.20MiB at 500.00KiB/s ETA 00:06'']) m0)
        1 Progress = Some (PyFloat 0)
   \<and> cell (run (running1 @ [WorkerLine 0 ''[download] 100% of 10.00MiB in 00:08'',
                            WorkerLine 0 ''[download]   0.0% of 3.20MiB at 500.00KiB/s ETA 00:06'']) m0)
        1 Status = Some (PyStr ''downloading'')
   \<and> \<not> ((100::rat) \<le> 0)
   \<and> cell (run (running1 @ [WorkerLine 0 ''[download] 100.5% of ~10.00MiB at 1.00MiB/s ETA 00:00'']) m0)
        1 Progress = Some (PyFloat (1005 / 10))
   \<and> \<not> (1005 / 10 \<le> (100::rat))"
  by code_simp

theorem progress_is_latest_percentage_witness:
  "cell (worker_line 0 ''[download]  45.2% of 10.00MiB at 1.21MiB/s ETA 00:12'' (run running1 m0)) 1 Progress
     = Some (PyFloat (452 / 10))
   \<and> cell (worker_eof 0 0 ''2024-01-01T10:05:00'' (run running1 m0)) 1 Status = Some (PyStr ''completed'')
   \<and> cell (worker_eof 0 0 ''2024-01-01T10:05:00'' (run running1 m0)) 1 Progress = Some (PyFloat 100)"
proof -
  let ?m = "run running1 m0"
  let ?l = "''[download]  45.2% of 10.00MiB at 1.21MiB/s ETA 00:12''"
  let ?pr = "Popen 4242 (build_cmd ''0'' (PyStr ''22'') (PyStr ''/home/u/Downloads/Unknown.%(ext)s'')
                (PyStr ''https://a/1''))"
  have m: "0 < length (threads ?m)" "phase (threads ?m ! 0) = Reading ?pr"
    "download_id (threads ?m ! 0) = 1" "(1::int) \<in> fst ` set (db_manager ?m)"
    by code_simp+
  have l: "?l \<noteq> []" "progress_event (strip ?l) = Some (452 / 10, ''1.21MiB/s'', ''00:12'')"
    by code_simp+
  note th = progress_is_latest_percentage [of 0 ?m ?pr ?l "452 / 10" "''1.21MiB/s''" "''00:12''" 0 ?m ?pr "''2024-01-01T10:05:00''"]
  from th m l have 1: "cell (worker_line 0 ?l ?m) 1 Progress = Some (PyFloat (452 / 10))"
    by simp
  from th m have 2: "cell (worker_eof 0 0 ''2024-01-01T10:05:00'' ?m) 1 Status = Some (PyStr ''completed'') \<and>
     cell (worker_eof 0 0 ''2024-01-01T10:05:00'' ?m) 1 Progress = Some (PyFloat 100)"
    by simp
  from 1 2 show ?thesis by simp
qed

section \<open>The end of the stream\<close>

lemma update_rows_list_all:
  assumes "\<And>r. Q r \<Longrightarrow> Q (f r)"
  shows "list_all (\<lambda>(i, r). Q r) tbl \<Longrightarrow>
         list_all (\<lambda>(i, r). Q r) (map (\<lambda>(i, r). if i = did then (i, f r) else (i, r)) tbl)"
  by (induction tbl) (auto simp: assms split: if_splits)

lemma db_update_list_all:
  assumes "\<And>r. Q r \<Longrightarrow> Q (set_clause kwargs r)"
    and "list_all (\<lambda>(i, r). Q r) tbl"
  shows "list_all (\<lambda>(i, r). Q r) (db_update tbl did kwargs)"
  unfolding db_update_def using assms by (simp add: update_rows_list_all)

lemma completed_has_timestamp_db_update:
  assumes "\<And>r. (r Status = PyStr ''completed'' \<longrightarrow> is_set (r Completed_at)) \<Longrightarrow>
              (set_clause kwargs r Status = PyStr ''completed'' \<longrightarrow>
               is_set (set_clause kwargs r Completed_at))"
    and "completed_has_timestamp m"
  shows "completed_has_timestamp (set_db (db_update (db_manager m) did kwargs) m)"
  unfolding completed_has_timestamp_def db_set_db
  using assms(2) unfolding completed_has_timestamp_def
  by (intro db_update_list_all [where Q = "\<lambda>r. r Status = PyStr ''completed'' \<longrightarrow> is_set (r Completed_at)"])
     (use assms(1) in blast)+

lemma completed_has_timestamp_set_phase:
  "completed_has_timestamp (set_phase t ph m) = completed_has_timestamp m"
  by (simp add: completed_has_timestamp_def db_set_phase)

lemma completed_has_timestamp_signal:
  assumes "s \<noteq> ''completed''" "completed_has_timestamp m"
  shows "completed_has_timestamp (signal_download s did d m)"
  using assms
  by (auto simp: signal_download_def status_kwargs intro!: completed_has_timestamp_db_update)

lemma completed_has_timestamp_start:
  "completed_has_timestamp (snd (start_download did a b c m)) = completed_has_timestamp m"
  by (simp add: start_download_def completed_has_timestamp_def)

lemma completed_has_timestamp_step:
  assumes "completed_has_timestamp m"
  shows "completed_has_timestamp (step e m)"
proof (cases e)
  case (StartDownload did a b c)
  with assms show ?thesis by (simp add: completed_has_timestamp_start)
next
  case (RetryDownload did)
  with assms show ?thesis
    by (simp add: retry_download_def completed_has_timestamp_start split: option.splits)
next
  case (PauseDownload did d)
  with assms show ?thesis by (simp add: pause_download_def completed_has_timestamp_signal)
next
  case (ResumeDownload did d)
  with assms show ?thesis by (simp add: resume_download_def completed_has_timestamp_signal)
next
  case (CancelDownload did d)
  with assms show ?thesis by (simp add: cancel_download_def completed_has_timestamp_signal)
next
  case (WorkerMark t)
  with assms show ?thesis
    by (auto simp: worker_mark_def completed_has_timestamp_set_phase status_kwargs
        intro!: completed_has_timestamp_db_update)
next
  case (WorkerSpawn t res)
  show ?thesis
  proof (cases res)
    case (Inl msg)
    with WorkerSpawn assms show ?thesis
      by (auto simp: worker_spawn_def completed_has_timestamp_set_phase failed_kwargs
          intro!: completed_has_timestamp_db_update)
  next
    case (Inr n)
    with WorkerSpawn assms show ?thesis
      by (simp add: worker_spawn_def db_set_phase Let_def completed_has_timestamp_def)
  qed
next
  case (WorkerLine t line)
  with assms show ?thesis
    by (auto simp: worker_line_def parse_progress_def progress_kwargs
        split: phase.splits option.splits intro!: completed_has_timestamp_db_update)
next
  case (WorkerReadError t msg)
  with assms show ?thesis
    by (auto simp: worker_read_error_def completed_has_timestamp_set_phase failed_kwargs
        split: phase.splits intro!: completed_has_timestamp_db_update)
next
  case (WorkerEof t rc now)
  with assms show ?thesis
    by (auto simp: worker_eof_def completed_has_timestamp_set_phase failed_kwargs completed_kwargs
        is_set_def split: phase.splits intro!: completed_has_timestamp_db_update)
next
  case (WorkerFinally t)
  with assms show ?thesis
    by (simp add: worker_finally_def db_set_phase Let_def completed_has_timestamp_def)
qed

lemma completed_has_timestamp_run:
  "completed_has_timestamp m \<Longrightarrow> completed_has_timestamp (run es m)"
  unfolding run_def
  by (induction es arbitrary: m) (simp_all add: completed_has_timestamp_step)


lemma download_failed_status:
  "set_clause [(Status, PyStr ''failed''), (Error_message, PyStr ''Download failed'')] r Status
     = PyStr ''failed''"
  "set_clause [(Status, PyStr ''failed''), (Error_message, PyStr ''Download failed'')] r Error_message
     = PyStr ''Download failed''"
  by (simp_all add: set_clause_def)

text \<open>
  Claim C4, as the code has it. At the end of the stream a worker with a row writes, for
  return code zero, the status \<^verbatim>\<open>completed\<close>, the progress 100 and the completion time, and
  for any other return code the status \<^verbatim>\<open>failed\<close> with the detail \<^verbatim>\<open>Download failed\<close>. Through
  every sequence of calls and worker steps, each row whose status is \<^verbatim>\<open>completed\<close> has
  \<^verbatim>\<open>completed_at\<close> set, provided that held at the start. Nothing clears \<^verbatim>\<open>completed_at\<close>, so
  the converse is not claimed.
\<close>

theorem end_of_stream_status_and_timestamp:
  "(t < length (threads m) \<and> phase (threads m ! t) = Reading pr \<and>
      download_id (threads m ! t) \<in> fst ` set (db_manager m) \<longrightarrow>
      cell (worker_eof t 0 now m) (download_id (threads m ! t)) Status = Some (PyStr ''completed'') \<and>
      cell (worker_eof t 0 now m) (download_id (threads m ! t)) Progress = Some (PyFloat 100) \<and>
      cell (worker_eof t 0 now m) (download_id (threads m ! t)) Completed_at = Some (PyStr now) \<and>
      (rc \<noteq> 0 \<longrightarrow>
         cell (worker_eof t rc now m) (download_id (threads m ! t)) Status = Some (PyStr ''failed'') \<and>
         cell (worker_eof t rc now m) (download_id (threads m ! t)) Error_message
           = Some (PyStr ''Download failed'')))
   \<and> (completed_has_timestamp m' \<longrightarrow> completed_has_timestamp (run es m'))"
proof (intro conjI impI)
  assume a: "t < length (threads m) \<and> phase (threads m ! t) = Reading pr \<and>
      download_id (threads m ! t) \<in> fst ` set (db_manager m)"
  then show "cell (worker_eof t 0 now m) (download_id (threads m ! t)) Status = Some (PyStr ''completed'')"
    by (simp add: worker_eof_def cell_set_phase cell_db_update completed_kwargs)
  from a show "cell (worker_eof t 0 now m) (download_id (threads m ! t)) Progress = Some (PyFloat 100)"
    by (simp add: worker_eof_def cell_set_phase cell_db_update completed_kwargs)
  from a show "cell (worker_eof t 0 now m) (download_id (threads m ! t)) Completed_at = Some (PyStr now)"
    by (simp add: worker_eof_def cell_set_phase cell_db_update completed_kwargs)
  assume rc: "rc \<noteq> 0"
  with a show "cell (worker_eof t rc now m) (download_id (threads m ! t)) Status = Some (PyStr ''failed'')"
    by (simp add: worker_eof_def cell_set_phase cell_db_update download_failed_status)
  from a rc show "cell (worker_eof t rc now m) (download_id (threads m ! t)) Error_message
           = Some (PyStr ''Download failed'')"
    by (simp add: worker_eof_def cell_set_phase cell_db_update download_failed_status)
next
  assume "completed_has_timestamp m'"
  then show "completed_has_timestamp (run es m')" by (rule completed_has_timestamp_run)
qed

text \<open>
  A completed job that is retried is marked \<^verbatim>\<open>downloading\<close> again and keeps its
  \<^verbatim>\<open>completed_at\<close>: \<^verbatim>\<open>retry_download\<close> does not look at the status. So does a job paused
  after its worker's last write and before the \<^verbatim>\<open>finally\<close> block, while its process is
  still in \<^verbatim>\<open>active_downloads\<close>.
\<close>

theorem completed_at_kept_after_retry:
  "completed_at_iff_completed m0
   \<and> cell (run (running1 @ [WorkerEof 0 0 ''2024-01-01T10:05:00'', WorkerFinally 0,
                            RetryDownload 1, WorkerMark 1]) m0) 1 Status
       = Some (PyStr ''downloading'')
   \<and> cell (run (running1 @ [WorkerEof 0 0 ''2024-01-01T10:05:00'', WorkerFinally 0,
                            RetryDownload 1, WorkerMark 1]) m0) 1 Completed_at
       = Some (PyStr ''2024-01-01T10:05:00'')
   \<and> \<not> completed_at_iff_completed
         (run (running1 @ [WorkerEof 0 0 ''2024-01-01T10:05:00'', WorkerFinally 0,
                           RetryDownload 1, WorkerMark 1]) m0)
   \<and> cell (run (running1 @ [WorkerEof 0 0 ''2024-01-01T10:05:00'', PauseDownload 1 True]) m0) 1 Status
       = Some (PyStr ''paused'')
   \<and> \<not> completed_at_iff_completed
         (run (running1 @ [WorkerEof 0 0 ''2024-01-01T10:05:00'', PauseDownload 1 True]) m0)"
  by code_simp

theorem end_of_stream_status_and_timestamp_witness:
  "cell (worker_eof 0 0 ''2024-01-01T10:05:00'' (run running1 m0)) 1 Completed_at
     = Some (PyStr ''2024-01-01T10:05:00'')
   \<and> cell (worker_eof 0 (- 15) ''2024-01-01T10:05:00'' (run running1 m0)) 1 Status
     = Some (PyStr ''failed'')
   \<and> cell (worker_eof 0 (- 15) ''2024-01-01T10:05:00'' (run running1 m0)) 1 Error_message
     = Some (PyStr ''Download failed'')
   \<and> completed_has_timestamp m0
   \<and> completed_has_timestamp (run (running1 @ [WorkerEof 0 0 ''2024-01-01T10:05:00'']) m0)"
proof -
  let ?m = "run running1 m0"
  let ?now = "''2024-01-01T10:05:00''"
  let ?pr = "Popen 4242 (build_cmd ''0'' (PyStr ''22'') (PyStr ''/home/u/Downloads/Unknown.%(ext)s'')
                (PyStr ''https://a/1''))"
  have m: "0 < length (threads ?m)" "phase (threads ?m ! 0) = Reading ?pr"
    "download_id (threads ?m ! 0) = 1" "(1::int) \<in> fst ` set (db_manager ?m)"
    by code_simp+
  have i: "completed_has_timestamp m0" by code_simp
  have rc: "(- 15 :: int) \<noteq> 0" by simp
  note th = end_of_stream_status_and_timestamp [of 0 ?m ?pr ?now "- 15" m0 "running1 @ [WorkerEof 0 0 ?now]"]
  from th m rc have 1: "cell (worker_eof 0 0 ?now ?m) 1 Completed_at = Some (PyStr ?now) \<and>
      cell (worker_eof 0 (- 15) ?now ?m) 1 Status = Some (PyStr ''failed'') \<and>
      cell (worker_eof 0 (- 15) ?now ?m) 1 Error_message = Some (PyStr ''Download failed'')"
    by simp
  from th i have 2: "completed_has_timestamp (run (running1 @ [WorkerEof 0 0 ?now]) m0)"
    by blast
  from 1 2 i show ?thesis by simp
qed

section \<open>Retry\<close>

lemma cell_db_update_other:
  assumes "kwargs \<noteq> []" "c \<notin> fst ` set kwargs"
  shows "cell (set_db (db_update (db_manager m) did kwargs) m) j c = cell m j c"
proof (cases "j = did")
  case False
  with assms(1) show ?thesis by (simp add: cell_def db_set_db map_of_db_update)
next
  case True
  show ?thesis
  proof (cases "map_of (db_manager m) did")
    case None
    with True assms(1) show ?thesis by (simp add: cell_def db_set_db map_of_db_update)
  next
    case (Some r)
    with True assms show ?thesis
      by (simp add: cell_def db_set_db map_of_db_update set_clause_other)
  qed
qed

lemma cell_start: "cell (snd (start_download did a b c m)) j col = cell m j col"
  by (simp add: start_download_def cell_def)

lemma descriptor_kept_by_step:
  assumes "c \<in> {Url, Format_id, File_path}"
  shows "cell (step e m) j c = cell m j c"
proof (cases e)
  case (StartDownload did a b c')
  then show ?thesis by (simp add: cell_start)
next
  case (RetryDownload did)
  then show ?thesis by (simp add: retry_download_def cell_start split: option.splits)
next
  case (PauseDownload did d)
  with assms show ?thesis
    by (auto simp: pause_download_def signal_download_def cell_db_update_other)
next
  case (ResumeDownload did d)
  with assms show ?thesis
    by (auto simp: resume_download_def signal_download_def cell_db_update_other)
next
  case (CancelDownload did d)
  with assms show ?thesis
    by (auto simp: cancel_download_def signal_download_def cell_db_update_other)
next
  case (WorkerMark t)
  with assms show ?thesis
    by (auto simp: worker_mark_def cell_set_phase cell_db_update_other)
next
  case (WorkerSpawn t res)
  show ?thesis
  proof (cases res)
    case (Inl msg)
    with WorkerSpawn assms show ?thesis
      by (auto simp: worker_spawn_def cell_set_phase cell_db_update_other)
  next
    case (Inr n)
    with WorkerSpawn show ?thesis
      by (simp add: worker_spawn_def Let_def cell_def db_set_phase)
  qed
next
  case (WorkerLine t line)
  with assms show ?thesis
    by (auto simp: worker_line_def parse_progress_def cell_db_update_other
        split: phase.splits option.splits)
next
  case (WorkerReadError t msg)
  with assms show ?thesis
    by (auto simp: worker_read_error_def cell_set_phase cell_db_update_other split: phase.splits)
next
  case (WorkerEof t rc now)
  with assms show ?thesis
    by (auto simp: worker_eof_def cell_set_phase cell_db_update_other split: phase.splits)
next
  case (WorkerFinally t)
  then show ?thesis
    by (simp add: worker_finally_def Let_def cell_def db_set_phase)
qed

text \<open>
  Claim C6, as the code has it. For a job with a row, \<^verbatim>\<open>retry_download\<close> passes the admission
  test like any start. When admitted it starts one more worker with the row's url,
  format id and file path and writes nothing: the status stays what it was (it is never
  set to \<^verbatim>\<open>pending\<close>) until that worker marks the job \<^verbatim>\<open>downloading\<close>, under the same id, and
  the worker's process is started with that format id, path and url. When not admitted
  the call changes nothing. No call and no worker step changes the url, format id or
  file path of any row.
\<close>

theorem retry_restarts_with_stored_descriptor:
  "(map_of (db_manager m) did = Some r \<and> int (length (active_downloads m)) < max_concurrent m \<longrightarrow>
      threads (retry_download did m)
        = threads m @ [\<lparr>download_id = did, url = r Url, format_id = r Format_id,
                         output_path = r File_path, phase = Created\<rparr>] \<and>
      db_manager (retry_download did m) = db_manager m \<and>
      cell (worker_mark (length (threads m)) (retry_download did m)) did Status
        = Some (PyStr ''downloading'') \<and>
      map_of (active_downloads
                (worker_spawn (length (threads m)) (Inr n)
                   (worker_mark (length (threads m)) (retry_download did m)))) did
        = Some (Popen n (build_cmd (max_speed m) (r Format_id) (r File_path) (r Url))))
   \<and> (map_of (db_manager m) did = Some r \<and> int (length (active_downloads m)) \<ge> max_concurrent m \<longrightarrow>
      retry_download did m = m)
   \<and> (c \<in> {Url, Format_id, File_path} \<longrightarrow> cell (step e m') j c = cell m' j c)"
proof (intro conjI impI)
  assume a: "map_of (db_manager m) did = Some r \<and> int (length (active_downloads m)) < max_concurrent m"
  let ?w = "\<lparr>download_id = did, url = r Url, format_id = r Format_id,
             output_path = r File_path, phase = Created\<rparr>"
  let ?m1 = "retry_download did m"
  let ?t = "length (threads m)"
  from a show th: "threads ?m1 = threads m @ [?w]"
    by (simp add: retry_download_def get_download_by_id_def start_download_def)
  from a show db: "db_manager ?m1 = db_manager m"
    by (simp add: retry_download_def get_download_by_id_def start_download_def)
  have t: "?t < length (threads ?m1)" "threads ?m1 ! ?t = ?w"
    by (simp_all add: th)
  from a have row: "did \<in> fst ` set (db_manager ?m1)"
    unfolding db by (metis map_of_eq_None_iff option.distinct(1))
  have mark: "worker_mark ?t ?m1 =
      set_phase ?t Marked (set_db (db_update (db_manager ?m1) did [(Status, PyStr ''downloading'')]) ?m1)"
    using t by (simp add: worker_mark_def)
  show "cell (worker_mark ?t ?m1) did Status = Some (PyStr ''downloading'')"
    unfolding mark using row by (simp add: cell_set_phase cell_db_update status_kwargs)
  let ?m2 = "worker_mark ?t ?m1"
  have t2: "?t < length (threads ?m2)" "phase (threads ?m2 ! ?t) = Marked"
    "download_id (threads ?m2 ! ?t) = did" "format_id (threads ?m2 ! ?t) = r Format_id"
    "output_path (threads ?m2 ! ?t) = r File_path" "url (threads ?m2 ! ?t) = r Url"
    "max_speed ?m2 = max_speed m"
    unfolding mark using t
    by (simp_all add: set_phase_def set_db_def retry_download_def start_download_def
        split: option.splits)
  show "map_of (active_downloads (worker_spawn ?t (Inr n) ?m2)) did
        = Some (Popen n (build_cmd (max_speed m) (r Format_id) (r File_path) (r Url)))"
    using t2 by (simp add: worker_spawn_def Let_def active_set_phase update_conv')
next
  assume "map_of (db_manager m) did = Some r \<and> int (length (active_downloads m)) \<ge> max_concurrent m"
  then show "retry_download did m = m"
    by (simp add: retry_download_def get_download_by_id_def start_download_def)
next
  assume "c \<in> {Url, Format_id, File_path}"
  then show "cell (step e m') j c = cell m' j c" by (rule descriptor_kept_by_step)
qed


text \<open>
  After the retry of a failed job its status is still \<^verbatim>\<open>failed\<close>, not \<^verbatim>\<open>pending\<close>; the next
  status it gets is \<^verbatim>\<open>downloading\<close>.
\<close>

theorem retry_does_not_pass_through_pending:
  "cell (run failed1 m0) 1 Status = Some (PyStr ''failed'')
   \<and> cell (run (failed1 @ [RetryDownload 1]) m0) 1 Status = Some (PyStr ''failed'')
   \<and> cell (run (failed1 @ [RetryDownload 1]) m0) 1 Status \<noteq> Some (PyStr ''pending'')
   \<and> cell (run (failed1 @ [RetryDownload 1, WorkerMark 1]) m0) 1 Status = Some (PyStr ''downloading'')"
  by code_simp

theorem retry_restarts_with_stored_descriptor_witness:
  "url (last (threads (retry_download 1 (run failed1 m0)))) = PyStr ''https://a/1''
   \<and> format_id (last (threads (retry_download 1 (run failed1 m0)))) = PyStr ''22''
   \<and> db_manager (retry_download 1 (run failed1 m0)) = db_manager (run failed1 m0)
   \<and> cell (worker_mark 1 (retry_download 1 (run failed1 m0))) 1 Status = Some (PyStr ''downloading'')
   \<and> cell (step (WorkerMark 1) (retry_download 1 (run failed1 m0))) 1 Url
       = cell (retry_download 1 (run failed1 m0)) 1 Url"
proof -
  let ?m = "run failed1 m0"
  have "(1::int) \<in> fst ` set (db_manager ?m)" by code_simp
  then obtain r where r: "map_of (db_manager ?m) 1 = Some r"
    by (metis map_of_eq_None_iff option.exhaust)
  have "cell ?m 1 Url = Some (PyStr ''https://a/1'')" "cell ?m 1 Format_id = Some (PyStr ''22'')"
    by code_simp+
  with r have ru: "r Url = PyStr ''https://a/1''" "r Format_id = PyStr ''22''"
    by (simp_all add: cell_def)
  have adm: "int (length (active_downloads ?m)) < max_concurrent ?m" by code_simp
  have len: "length (threads ?m) = 1" by code_simp
  have c: "Url \<in> {Url, Format_id, File_path}" by simp
  note th = retry_restarts_with_stored_descriptor [of ?m 1 r 4243 Url "WorkerMark 1" "retry_download 1 ?m" 1]
  from th r adm have 1: "threads (retry_download 1 ?m)
        = threads ?m @ [\<lparr>download_id = 1, url = r Url, format_id = r Format_id,
                          output_path = r File_path, phase = Created\<rparr>]"
    and 2: "db_manager (retry_download 1 ?m) = db_manager ?m"
    and 3: "cell (worker_mark (length (threads ?m)) (retry_download 1 ?m)) 1 Status
        = Some (PyStr ''downloading'')"
    by blast+
  from th c have 4: "cell (step (WorkerMark 1) (retry_download 1 ?m)) 1 Url
       = cell (retry_download 1 ?m) 1 Url" by blast
  from 1 ru have 5: "url (last (threads (retry_download 1 ?m))) = PyStr ''https://a/1''"
    "format_id (last (threads (retry_download 1 ?m))) = PyStr ''22''" by simp_all
  from 3 len have 6: "cell (worker_mark 1 (retry_download 1 ?m)) 1 Status = Some (PyStr ''downloading'')"
    by simp
  from 5 2 6 4 show ?thesis by blast
qed

section \<open>Admission and cancellation\<close>

text \<open>
  Claim C1, on the code. The admission test counts the processes in
  \<^verbatim>\<open>active_downloads\<close>, where a worker enters its process only after it has started it.
  With the limit 3, three jobs admitted and marked \<^verbatim>\<open>downloading\<close> whose workers have not
  reached that point leave the dict empty, so a fourth start is admitted; then four jobs
  are \<^verbatim>\<open>downloading\<close> and, once the workers go on, four processes run.
\<close>

theorem fourth_start_admitted_over_limit:
  "max_concurrent (run three_marked m0) = 3
   \<and> count_status ''downloading'' (run three_marked m0) = 3
   \<and> length (active_downloads (run three_marked m0)) = 0
   \<and> fst (start_download 4 (PyStr ''https://a/4'') (PyStr ''22'')
             (PyStr ''/home/u/Downloads/Unknown.%(ext)s'') (run three_marked m0))
   \<and> count_status ''downloading'' (run (three_marked @ [start4, WorkerMark 3]) m0) = 4
   \<and> length (active_downloads
        (run (three_marked @ [start4, WorkerMark 3, WorkerSpawn 0 (Inr 4242), WorkerSpawn 1 (Inr 4243),
                              WorkerSpawn 2 (Inr 4244), WorkerSpawn 3 (Inr 4245)]) m0)) = 4"
  by code_simp

text \<open>
  Claim C2, on the code. The worker's last write does not look at the status. A job
  cancelled while downloading, or while paused, is \<^verbatim>\<open>cancelled\<close> until its worker sees the
  end of the stream; the terminated process has return code -15 and the worker writes
  \<^verbatim>\<open>failed\<close> (or \<^verbatim>\<open>completed\<close> if the process had just finished).
\<close>

theorem cancelled_overwritten_at_end_of_stream:
  "cell (run (running1 @ [CancelDownload 1 True]) m0) 1 Status = Some (PyStr ''cancelled'')
   \<and> cell (run (running1 @ [CancelDownload 1 True, WorkerEof 0 (- 15) ''2024-01-01T10:05:00'']) m0) 1 Status
       = Some (PyStr ''failed'')
   \<and> cell (run (running1 @ [PauseDownload 1 True, CancelDownload 1 True]) m0) 1 Status
       = Some (PyStr ''cancelled'')
   \<and> cell (run (running1 @ [PauseDownload 1 True, CancelDownload 1 True,
                            WorkerEof 0 (- 15) ''2024-01-01T10:05:00'']) m0) 1 Status
       = Some (PyStr ''failed'')
   \<and> cell (run (running1 @ [CancelDownload 1 True, WorkerEof 0 0 ''2024-01-01T10:05:00'']) m0) 1 Status
       = Some (PyStr ''completed'')"
  by code_simp

end
